theory Spec2Isabelle
  imports Main "HOL-Library.Word" "HOL-Library.Stream" "HOL-Library.Signed_Division"
    "HOL-Library.Monad_Syntax"
begin

section \<open>Game of Life (src/GameOfLife/Main.cpp)\<close>

text \<open>
  The program keeps one \<open>Grid<Cell>\<close> of 62 x 62 cells (a 60 x 60 field and a ring of
  border cells) and one 60 x 60 \<open>Image\<close>. \<open>Grid\<close>, \<open>Image\<close>, \<open>Range\<close>, \<open>step\<close>, \<open>Point\<close>
  and \<open>RandomBool\<close> belong to the Siv3D framework the program is written against; they
  are modelled here by what the program uses of them: a grid and an image are a width,
  a height and a row-major array, \<open>a[y][x]\<close> is element \<open>y * width + x\<close> of the array,
  \<open>Range(a, b)\<close> (here \<open>Range_incl\<close>) counts from \<open>a\<close> to \<open>b\<close> inclusive, \<open>step(n)\<close> counts from \<open>0\<close> to
  \<open>n - 1\<close>.

  C++ does not check an array index. An access outside the array is undefined
  behaviour; the model makes it the value \<open>None\<close>, so that a result \<open>Some g\<close> says that
  the run stayed inside the arrays.
\<close>

subsection \<open>Data\<close>

text \<open>\<^verbatim>\<open>struct Cell { bool previous : 1; bool current : 1; };\<close>\<close>

record Cell =
  previous :: bool
  current :: bool

text \<open>\<open>Grid<Type>\<close>: \<open>m_data\<close> holds the rows one after the other.\<close>

record 'a Grid =
  m_width :: nat
  m_height :: nat
  m_data :: "'a list"

text \<open>\<open>Color\<close> has four 8-bit channels; \<open>Color(r, g, b)\<close> is opaque.\<close>

record Color =
  col_r :: "8 word"
  col_g :: "8 word"
  col_b :: "8 word"
  col_a :: "8 word"

record Image =
  im_width :: nat
  im_height :: nat
  im_data :: "Color list"

subsection \<open>Sizes, ranges and loops\<close>

text \<open>
  \<open>grid.width()\<close> and \<open>grid.height()\<close> are \<open>size_t\<close> (64 bits), and so are the loop
  variables of \<open>Range(1, grid.height() - 2)\<close>. Subtraction wraps around below zero.
\<close>

definition size_sub :: "nat \<Rightarrow> nat \<Rightarrow> nat" where
  "size_sub m n = (if n \<le> m then m - n else m + 18446744073709551616 - n)"

text \<open>An \<open>int32\<close> converted to \<open>size_t\<close> (the coordinates of a \<open>Point\<close> used as an index).\<close>

definition size_of_int :: "int \<Rightarrow> nat" where
  "size_of_int i = nat (i mod 18446744073709551616)"

definition Range_incl :: "nat \<Rightarrow> nat \<Rightarrow> nat list" where
  "Range_incl from to = [from..<Suc to]"

definition step :: "nat \<Rightarrow> nat list" where
  "step n = [0..<n]"

text \<open>
  A range-based \<open>for\<close> loop whose body may leave the arrays: the loop stops there.
\<close>

fun for_each :: "'i list \<Rightarrow> ('s \<Rightarrow> 'i \<Rightarrow> 's option) \<Rightarrow> 's \<Rightarrow> 's option" where
  "for_each [] body s = Some s"
| "for_each (i # is) body s =
     (case body s i of None \<Rightarrow> None | Some s' \<Rightarrow> for_each is body s')"

subsection \<open>Grid and image access\<close>

text \<open>\<open>grid[y][x]\<close>, read.\<close>

definition at :: "'a Grid \<Rightarrow> nat \<Rightarrow> nat \<Rightarrow> 'a option" where
  "at grid y x =
     (let i = y * m_width grid + x
      in if i < length (m_data grid) then Some (m_data grid ! i) else None)"

text \<open>\<open>grid[y][x] = v\<close>.\<close>

definition put :: "'a Grid \<Rightarrow> nat \<Rightarrow> nat \<Rightarrow> 'a \<Rightarrow> 'a Grid option" where
  "put grid y x v =
     (let i = y * m_width grid + x
      in if i < length (m_data grid) then Some (grid\<lparr>m_data := (m_data grid)[i := v]\<rparr>)
         else None)"

text \<open>\<open>grid[y][x].current = v\<close>: the other bit of the cell stays.\<close>

definition put_current :: "Cell Grid \<Rightarrow> nat \<Rightarrow> nat \<Rightarrow> bool \<Rightarrow> Cell Grid option" where
  "put_current grid y x v =
     (let i = y * m_width grid + x
      in if i < length (m_data grid)
         then Some (grid\<lparr>m_data := (m_data grid)[i := (m_data grid ! i)\<lparr>current := v\<rparr>]\<rparr>)
         else None)"

text \<open>\<open>grid.fill(v)\<close> assigns \<open>v\<close> to every element of the array.\<close>

definition fill :: "'a Grid \<Rightarrow> 'a \<Rightarrow> 'a Grid" where
  "fill grid v = grid\<lparr>m_data := map (\<lambda>_. v) (m_data grid)\<rparr>"

text \<open>\<open>image[y][x] = c\<close>.\<close>

definition image_put :: "Image \<Rightarrow> nat \<Rightarrow> nat \<Rightarrow> Color \<Rightarrow> Image option" where
  "image_put img y x c =
     (let i = y * im_width img + x
      in if i < length (im_data img) then Some (img\<lparr>im_data := (im_data img)[i := c]\<rparr>)
         else None)"

subsection \<open>Update\<close>

text \<open>
  The first loop of \<open>Update\<close>:
  \<^verbatim>\<open>for (auto& cell : grid) { cell.previous = cell.current; }\<close>
\<close>

definition snapshot :: "Cell Grid \<Rightarrow> Cell Grid" where
  "snapshot grid = grid\<lparr>m_data := map (\<lambda>cell. cell\<lparr>previous := current cell\<rparr>) (m_data grid)\<rparr>"

text \<open>A \<open>bool\<close> bit field read as an \<open>int32\<close>.\<close>

definition int32_of_bool :: "bool \<Rightarrow> int" where
  "int32_of_bool v = (if v then 1 else 0)"

text \<open>
  The body of the inner loop of \<open>Update\<close>: the centre and its eight neighbours are read
  from \<open>previous\<close>, in the order of the source, and \<open>current\<close> of the centre is written.
  The sum is at most 8, so the \<open>int32\<close> cannot overflow.
\<close>

definition update_cell :: "Cell Grid \<Rightarrow> nat \<Rightarrow> nat \<Rightarrow> Cell Grid option" where
  "update_cell grid y x = do {
     c \<leftarrow> at grid y x;
     let centerCell = int32_of_bool (previous c);
     let numLivingCell = 0;
     n1 \<leftarrow> at grid (size_sub y 1) (size_sub x 1);
     let numLivingCell = numLivingCell + int32_of_bool (previous n1);
     n2 \<leftarrow> at grid (size_sub y 1) x;
     let numLivingCell = numLivingCell + int32_of_bool (previous n2);
     n3 \<leftarrow> at grid (size_sub y 1) (x + 1);
     let numLivingCell = numLivingCell + int32_of_bool (previous n3);
     n4 \<leftarrow> at grid y (size_sub x 1);
     let numLivingCell = numLivingCell + int32_of_bool (previous n4);
     n5 \<leftarrow> at grid y (x + 1);
     let numLivingCell = numLivingCell + int32_of_bool (previous n5);
     n6 \<leftarrow> at grid (y + 1) (size_sub x 1);
     let numLivingCell = numLivingCell + int32_of_bool (previous n6);
     n7 \<leftarrow> at grid (y + 1) x;
     let numLivingCell = numLivingCell + int32_of_bool (previous n7);
     n8 \<leftarrow> at grid (y + 1) (x + 1);
     let numLivingCell = numLivingCell + int32_of_bool (previous n8);
     put_current grid y x
       ((centerCell = 0 \<and> numLivingCell = 3)
        \<or> (centerCell = 1 \<and> (numLivingCell = 2 \<or> numLivingCell = 3)))
   }"

definition Update :: "Cell Grid \<Rightarrow> Cell Grid option" where
  "Update grid0 =
     (let grid = snapshot grid0
      in for_each (Range_incl 1 (size_sub (m_height grid) 2))
           (\<lambda>grid y. for_each (Range_incl 1 (size_sub (m_width grid) 2))
              (\<lambda>grid x. update_cell grid y x) grid)
           grid)"

subsection \<open>FillRandom\<close>

text \<open>
  \<open>RandomBool(0.5)\<close> draws from the generator of the framework. The generator is the
  stream of the booleans it will return; a call takes the head.
\<close>

definition RandomBool :: "bool stream \<Rightarrow> bool \<times> bool stream" where
  "RandomBool rng = (shd rng, stl rng)"

definition fill_cell :: "Cell Grid \<times> bool stream \<Rightarrow> nat \<Rightarrow> nat \<Rightarrow> (Cell Grid \<times> bool stream) option"
  where
  "fill_cell s y x =
     (case s of (grid, rng) \<Rightarrow>
        (case RandomBool rng of (v, rng') \<Rightarrow>
           (case put grid y x \<lparr>previous = False, current = v\<rparr> of
              None \<Rightarrow> None
            | Some grid' \<Rightarrow> Some (grid', rng'))))"

definition FillRandom :: "Cell Grid \<times> bool stream \<Rightarrow> (Cell Grid \<times> bool stream) option" where
  "FillRandom s0 =
     (case s0 of (grid0, rng) \<Rightarrow>
        (let grid = fill grid0 \<lparr>previous = False, current = False\<rparr>
         in for_each (Range_incl 1 (size_sub (m_height grid) 2))
              (\<lambda>s y. for_each (Range_incl 1 (size_sub (m_width (fst s)) 2))
                 (\<lambda>s x. fill_cell s y x) s)
              (grid, rng)))"

subsection \<open>CopyToImage\<close>

definition colorLivingCell :: Color where
  "colorLivingCell = \<lparr>col_r = 0, col_g = 255, col_b = 0, col_a = 255\<rparr>"

text \<open>\<open>Palette::Black\<close>\<close>

definition colorDeadCell :: Color where
  "colorDeadCell = \<lparr>col_r = 0, col_g = 0, col_b = 0, col_a = 255\<rparr>"

definition copy_pixel :: "Cell Grid \<Rightarrow> Image \<Rightarrow> nat \<Rightarrow> nat \<Rightarrow> Image option" where
  "copy_pixel grid img y x =
     (case at grid (y + 1) (x + 1) of
        None \<Rightarrow> None
      | Some c \<Rightarrow> image_put img y x (if current c then colorLivingCell else colorDeadCell))"

definition CopyToImage :: "Cell Grid \<Rightarrow> Image \<Rightarrow> Image option" where
  "CopyToImage grid img0 =
     for_each (step (im_height img0))
       (\<lambda>img y. for_each (step (im_width img))
          (\<lambda>img x. copy_pixel grid img y x) img)
       img0"

subsection \<open>The operations of Main\<close>

text \<open>The button that clears the field: \<^verbatim>\<open>grid.fill({ 0, 0 });\<close>\<close>

definition clear :: "Cell Grid \<Rightarrow> Cell Grid" where
  "clear grid = fill grid \<lparr>previous = False, current = False\<rparr>"

text \<open>
  The mouse edit of the field. \<open>Point\<close> has two \<open>int32\<close> coordinates; \<open>Point / 10\<close>
  divides both, truncating towards zero, and no coordinate of a cursor is large enough
  for the \<open>+ 1\<close> to overflow.
\<close>

datatype Point = Point (pt_x: int) (pt_y: int)

text \<open>\<^verbatim>\<open>const Point target = Cursor::Pos() / 10 + Point(1, 1);\<close>\<close>

definition edit_target :: "Point \<Rightarrow> Point" where
  "edit_target pos = Point (pt_x pos sdiv 10 + 1) (pt_y pos sdiv 10 + 1)"

text \<open>
  \<open>grid[target]\<close> is element \<open>target.y * m_width + target.x\<close>, computed in \<open>size_t\<close>.
\<close>

definition point_index :: "'a Grid \<Rightarrow> Point \<Rightarrow> nat" where
  "point_index grid p =
     (size_of_int (pt_y p) * m_width grid + size_of_int (pt_x p)) mod 18446744073709551616"

text \<open>\<open>grid[target].current = v\<close>\<close>

definition put_current_at :: "Cell Grid \<Rightarrow> Point \<Rightarrow> bool \<Rightarrow> Cell Grid option" where
  "put_current_at grid p v =
     (let i = point_index grid p
      in if i < length (m_data grid)
         then Some (grid\<lparr>m_data := (m_data grid)[i := (m_data grid ! i)\<lparr>current := v\<rparr>]\<rparr>)
         else None)"

text \<open>
  \<open>Rect(0, 0, 599).mouseOver()\<close>: the cursor is inside the square of side 599 at the
  origin.
\<close>

definition mouseOver :: "Point \<Rightarrow> bool" where
  "mouseOver pos = (0 \<le> pt_x pos \<and> pt_x pos < 599 \<and> 0 \<le> pt_y pos \<and> pt_y pos < 599)"

text \<open>
  The edit of one frame: \<open>pos\<close> is \<open>Cursor::Pos()\<close>, \<open>mouseL\<close> and \<open>mouseR\<close> are
  \<open>MouseL.pressed()\<close> and \<open>MouseR.pressed()\<close>.
\<close>

definition edit :: "Cell Grid \<Rightarrow> Point \<Rightarrow> bool \<Rightarrow> bool \<Rightarrow> Cell Grid option" where
  "edit grid pos mouseL mouseR =
     (if mouseOver pos
      then (let target = edit_target pos
            in if mouseL then put_current_at grid target True
               else if mouseR then put_current_at grid target False
               else Some grid)
      else Some grid)"

text \<open>
  The grid of \<open>Main\<close>:
  \<^verbatim>\<open>Grid<Cell> grid(fieldWidth + 2, fieldHeight + 2, Cell{ 0,0 });\<close>
  and its image:
  \<^verbatim>\<open>Image image(fieldWidth, fieldHeight, Palette::Black);\<close>
\<close>

definition fieldWidth :: nat where
  "fieldWidth = 60"

definition fieldHeight :: nat where
  "fieldHeight = 60"

definition new_grid :: "nat \<Rightarrow> nat \<Rightarrow> 'a \<Rightarrow> 'a Grid" where
  "new_grid w h v = \<lparr>m_width = w, m_height = h, m_data = replicate (w * h) v\<rparr>"

definition new_image :: "nat \<Rightarrow> nat \<Rightarrow> Color \<Rightarrow> Image" where
  "new_image w h c = \<lparr>im_width = w, im_height = h, im_data = replicate (w * h) c\<rparr>"

definition main_grid :: "Cell Grid" where
  "main_grid = new_grid (fieldWidth + 2) (fieldHeight + 2) \<lparr>previous = False, current = False\<rparr>"

definition main_image :: Image where
  "main_image = new_image fieldWidth fieldHeight colorDeadCell"

text \<open>
  One pass of the loop of \<open>Main\<close>, as far as it changes the grid: the button that fills
  the field at random, the button that clears it, the step (the button, or the timer
  when \<open>autoStep\<close> is on: \<open>updateDue\<close> is the value of that condition) and the mouse
  edit, in this order. The rest of the loop body reads the grid and draws.
\<close>

record Input =
  randomButton :: bool
  clearButton :: bool
  updateDue :: bool
  cursorPos :: Point
  mouseLpressed :: bool
  mouseRpressed :: bool

definition frame :: "Input \<Rightarrow> Cell Grid \<times> bool stream \<Rightarrow> (Cell Grid \<times> bool stream) option" where
  "frame inp s = do {
     s1 \<leftarrow> (if randomButton inp then FillRandom s else Some s);
     let s2 = (if clearButton inp then (clear (fst s1), snd s1) else s1);
     grid3 \<leftarrow> (if updateDue inp then Update (fst s2) else Some (fst s2));
     grid4 \<leftarrow> edit grid3 (cursorPos inp) (mouseLpressed inp) (mouseRpressed inp);
     Some (grid4, snd s2)
   }"

text \<open>\<^verbatim>\<open>while (System::Update()) { ... }\<close>, for the inputs of finitely many passes.\<close>

definition run :: "Input list \<Rightarrow> Cell Grid \<times> bool stream \<Rightarrow> (Cell Grid \<times> bool stream) option" where
  "run inputs s = for_each inputs (\<lambda>s inp. frame inp s) s"

subsection \<open>Well-formed grids and images\<close>

text \<open>
  A \<open>Grid\<close> object holds \<open>width * height\<close> elements, and the array fits the address
  space. The grids of this program have a border on every side, so both dimensions are
  at least 2.
\<close>

definition grid_ok :: "'a Grid \<Rightarrow> bool" where
  "grid_ok grid =
     (2 \<le> m_width grid \<and> 2 \<le> m_height grid
      \<and> length (m_data grid) = m_width grid * m_height grid
      \<and> length (m_data grid) < 18446744073709551616)"

definition image_ok :: "Image \<Rightarrow> bool" where
  "image_ok img = (length (im_data img) = im_width img * im_height img)"

text \<open>
  The cells of the field (the logical cells) are those of rows \<open>1 .. height - 2\<close> and
  columns \<open>1 .. width - 2\<close>; the cells of the first and last row and column are the
  border (the padding).
\<close>

definition logical :: "'a Grid \<Rightarrow> nat \<Rightarrow> nat \<Rightarrow> bool" where
  "logical grid y x = (1 \<le> y \<and> y + 1 < m_height grid \<and> 1 \<le> x \<and> x + 1 < m_width grid)"

definition padding :: "'a Grid \<Rightarrow> nat \<Rightarrow> nat \<Rightarrow> bool" where
  "padding grid y x = (y < m_height grid \<and> x < m_width grid \<and> \<not> logical grid y x)"

subsection \<open>What the loops of Update compute\<close>

text \<open>
  The value the inner loop body of \<open>Update\<close> writes at \<open>(y, x)\<close>, from the \<open>previous\<close> bits
  \<open>bs\<close> of the array alone: the same expression as in \<open>update_cell\<close>, on unchecked reads.
\<close>

definition next_current :: "bool list \<Rightarrow> nat \<Rightarrow> nat \<Rightarrow> nat \<Rightarrow> bool" where
  "next_current bs w y x =
     (let centerCell = int32_of_bool (bs ! (y * w + x));
          numLivingCell = 0
            + int32_of_bool (bs ! ((y - 1) * w + (x - 1)))
            + int32_of_bool (bs ! ((y - 1) * w + x))
            + int32_of_bool (bs ! ((y - 1) * w + (x + 1)))
            + int32_of_bool (bs ! (y * w + (x - 1)))
            + int32_of_bool (bs ! (y * w + (x + 1)))
            + int32_of_bool (bs ! ((y + 1) * w + (x - 1)))
            + int32_of_bool (bs ! ((y + 1) * w + x))
            + int32_of_bool (bs ! ((y + 1) * w + (x + 1)))
      in (centerCell = 0 \<and> numLivingCell = 3)
         \<or> (centerCell = 1 \<and> (numLivingCell = 2 \<or> numLivingCell = 3)))"

text \<open>
  The grid in the middle of the second loop of \<open>Update\<close>, when the cells whose indices
  are in \<open>S\<close> have been written.
\<close>

definition evolved :: "nat set \<Rightarrow> Cell Grid \<Rightarrow> Cell Grid" where
  "evolved S grid =
     grid\<lparr>m_data :=
       map (\<lambda>i. if i \<in> S
                then (m_data grid ! i)\<lparr>current :=
                  next_current (map previous (m_data grid)) (m_width grid)
                    (i div m_width grid) (i mod m_width grid)\<rparr>
                else m_data grid ! i)
         [0..<length (m_data grid)]\<rparr>"

definition logical_indices :: "'a Grid \<Rightarrow> nat set" where
  "logical_indices grid =
     (\<Union>y\<in>set (Range_incl 1 (m_height grid - 2)).
        \<Union>x\<in>set (Range_incl 1 (m_width grid - 2)). {y * m_width grid + x})"

text \<open>
  The same for \<open>CopyToImage\<close>: the colour written at pixel \<open>(y, x)\<close>, the image when the
  pixels whose indices are in \<open>S\<close> have been written, and the condition under which
  every read of the grid stays inside its array.
\<close>

definition cell_color :: "Cell Grid \<Rightarrow> nat \<Rightarrow> nat \<Rightarrow> Color" where
  "cell_color grid y x =
     (if current (m_data grid ! ((y + 1) * m_width grid + (x + 1)))
      then colorLivingCell else colorDeadCell)"

definition painted :: "nat set \<Rightarrow> Cell Grid \<Rightarrow> Image \<Rightarrow> Image" where
  "painted S grid img =
     img\<lparr>im_data :=
       map (\<lambda>i. if i \<in> S then cell_color grid (i div im_width img) (i mod im_width img)
                else im_data img ! i)
         [0..<length (im_data img)]\<rparr>"

definition pixel_indices :: "Image \<Rightarrow> nat set" where
  "pixel_indices img =
     (\<Union>y\<in>set (step (im_height img)). \<Union>x\<in>set (step (im_width img)). {y * im_width img + x})"

definition reads_inside :: "Cell Grid \<Rightarrow> Image \<Rightarrow> bool" where
  "reads_inside grid img =
     (\<forall>y\<in>{..<im_height img}. \<forall>x\<in>{..<im_width img}.
        (y + 1) * m_width grid + (x + 1) < length (m_data grid))"

text \<open>
  The same for \<open>FillRandom\<close>. The second loop visits the logical cells row by row, so
  the cell \<open>(y, x)\<close> receives the draw number \<open>draw_index grid y x\<close>, counted from 0.
  \<open>filled k grid rng\<close> is the state when \<open>k\<close> cells have been written.
\<close>

definition draw_index :: "'a Grid \<Rightarrow> nat \<Rightarrow> nat \<Rightarrow> nat" where
  "draw_index grid y x = (y - 1) * (m_width grid - 2) + (x - 1)"

definition filled :: "nat \<Rightarrow> Cell Grid \<Rightarrow> bool stream \<Rightarrow> Cell Grid \<times> bool stream" where
  "filled k grid rng =
     (grid\<lparr>m_data :=
        map (\<lambda>i. if logical grid (i div m_width grid) (i mod m_width grid)
                    \<and> draw_index grid (i div m_width grid) (i mod m_width grid) < k
                 then \<lparr>previous = False,
                       current = rng !! draw_index grid (i div m_width grid) (i mod m_width grid)\<rparr>
                 else \<lparr>previous = False, current = False\<rparr>)
          [0..<length (m_data grid)]\<rparr>,
      sdrop k rng)"

subsection \<open>The words of the specification\<close>

text \<open>
  A cell is alive when its \<open>current\<close> bit is set, and was alive when its \<open>previous\<close> bit
  is. \<open>neighborCount\<close> is the number of live cells among the eight around \<open>(y, x)\<close>.
  \<open>spec_new_current\<close> is the rule of the specification: birth on three live
  neighbours, survival on two or three, death otherwise.
\<close>

definition alive :: "Cell Grid \<Rightarrow> nat \<Rightarrow> nat \<Rightarrow> bool" where
  "alive grid y x = (case at grid y x of Some c \<Rightarrow> current c | None \<Rightarrow> False)"

definition was_alive :: "Cell Grid \<Rightarrow> nat \<Rightarrow> nat \<Rightarrow> bool" where
  "was_alive grid y x = (case at grid y x of Some c \<Rightarrow> previous c | None \<Rightarrow> False)"

definition neighborCount :: "(nat \<Rightarrow> nat \<Rightarrow> bool) \<Rightarrow> nat \<Rightarrow> nat \<Rightarrow> nat" where
  "neighborCount live y x =
     length (filter id
       [live (y - 1) (x - 1), live (y - 1) x, live (y - 1) (x + 1),
        live y (x - 1), live y (x + 1),
        live (y + 1) (x - 1), live (y + 1) x, live (y + 1) (x + 1)])"

definition spec_new_current :: "bool \<Rightarrow> nat \<Rightarrow> bool" where
  "spec_new_current live n = ((\<not> live \<and> n = 3) \<or> (live \<and> (n = 2 \<or> n = 3)))"

text \<open>\<open>image[y][x]\<close>, read.\<close>

definition pixel :: "Image \<Rightarrow> nat \<Rightarrow> nat \<Rightarrow> Color option" where
  "pixel img y x =
     (let i = y * im_width img + x
      in if i < length (im_data img) then Some (im_data img ! i) else None)"

text \<open>The border cells are all dead, in both bits.\<close>

definition padding_dead :: "Cell Grid \<Rightarrow> bool" where
  "padding_dead grid =
     (\<forall>y\<in>{..<m_height grid}. \<forall>x\<in>{..<m_width grid}.
        padding grid y x \<longrightarrow> at grid y x = Some \<lparr>previous = False, current = False\<rparr>)"

text \<open>
  What every pass of the loop of \<open>Main\<close> keeps: the grid is well formed, of 62 x 62
  cells, and its border is dead.
\<close>

definition frame_ok :: "Cell Grid \<times> bool stream \<Rightarrow> bool" where
  "frame_ok s = (grid_ok (fst s) \<and> padding_dead (fst s)
     \<and> m_width (fst s) = fieldWidth + 2 \<and> m_height (fst s) = fieldHeight + 2)"

text \<open>\<open>n\<close> calls of \<open>Update\<close>, one after the other.\<close>

fun steps :: "nat \<Rightarrow> Cell Grid \<Rightarrow> Cell Grid option" where
  "steps 0 grid = Some grid"
| "steps (Suc n) grid = (case Update grid of None \<Rightarrow> None | Some grid' \<Rightarrow> steps n grid')"

subsection \<open>Example grids\<close>

text \<open>
  The grid of \<open>w\<close> columns and \<open>h\<close> rows whose cell \<open>(y, x)\<close> has \<open>current = live y x\<close> and
  \<open>previous = False\<close>.
\<close>

definition grid_of :: "nat \<Rightarrow> nat \<Rightarrow> (nat \<Rightarrow> nat \<Rightarrow> bool) \<Rightarrow> Cell Grid" where
  "grid_of w h live =
     \<lparr>m_width = w, m_height = h,
      m_data = map (\<lambda>i. \<lparr>previous = False, current = live (i div w) (i mod w)\<rparr>) [0..<w * h]\<rparr>"

text \<open>A 5 x 5 grid (a 3 x 3 field) with three live cells in its middle row.\<close>

definition blinker_row :: "Cell Grid" where
  "blinker_row = grid_of 5 5 (\<lambda>y x. y = 2 \<and> 1 \<le> x \<and> x \<le> 3)"

text \<open>The same row, with the \<open>previous\<close> bit of every cell set.\<close>

definition blinker_row_seen :: "Cell Grid" where
  "blinker_row_seen =
     blinker_row\<lparr>m_data := map (\<lambda>cell. cell\<lparr>previous := True\<rparr>) (m_data blinker_row)\<rparr>"

text \<open>The grid of \<open>Main\<close> with the logical cell \<open>(3, 4)\<close> alive and no other.\<close>

definition only_3_4 :: "Cell Grid" where
  "only_3_4 = grid_of (fieldWidth + 2) (fieldHeight + 2) (\<lambda>y x. y = 5 \<and> x = 4)"

text \<open>An image of two pixels, both in the colour of a live cell.\<close>

definition small_image :: Image where
  "small_image = new_image 2 1 colorLivingCell"

text \<open>A 3 x 3 grid (a field of one cell) with every cell alive, and with the middle one only.\<close>

definition all_alive :: "Cell Grid" where
  "all_alive = grid_of 3 3 (\<lambda>y x. True)"

definition center_alive :: "Cell Grid" where
  "center_alive = grid_of 3 3 (\<lambda>y x. y = 1 \<and> x = 1)"

text \<open>
  Two passes of the loop: the field is filled at random and edited at the right end of
  its first row; then it is cleared, stepped and edited at its lower right corner.
\<close>

definition two_frames :: "Input list" where
  "two_frames =
     [\<lparr>randomButton = True, clearButton = False, updateDue = False,
       cursorPos = Point 598 0, mouseLpressed = True, mouseRpressed = False\<rparr>,
      \<lparr>randomButton = False, clearButton = True, updateDue = True,
       cursorPos = Point 598 598, mouseLpressed = False, mouseRpressed = True\<rparr>]"

text \<open>Whether the cell \<open>(y, x)\<close> is alive after \<open>n\<close> steps.\<close>

definition alive_after :: "nat \<Rightarrow> Cell Grid \<Rightarrow> nat \<Rightarrow> nat \<Rightarrow> bool option" where
  "alive_after n grid y x = map_option (\<lambda>grid'. alive grid' y x) (steps n grid)"

text \<open>A 5 x 5 grid with three live cells in the first row of its field.\<close>

definition blinker_top :: "Cell Grid" where
  "blinker_top = grid_of 5 5 (\<lambda>y x. y = 1 \<and> 1 \<le> x \<and> x \<le> 3)"


section \<open>Lemmas\<close>

subsection \<open>Indices and loops\<close>

lemma size_sub_le [simp]: "n \<le> m \<Longrightarrow> size_sub m n = m - n"
  by (simp add: size_sub_def)

lemma index_less:
  fixes w :: nat
  assumes "y < h" "x < w"
  shows "y * w + x < w * h"
proof -
  have "y * w + x < y * w + w" using assms by simp
  also have "\<dots> = Suc y * w" by simp
  also have "\<dots> \<le> h * w" using assms by (intro mult_le_mono1) simp
  finally show ?thesis by (simp add: mult.commute)
qed

lemma index_div [simp]: "x < w \<Longrightarrow> (y * w + x) div w = (y::nat)"
  by simp

lemma index_mod [simp]: "x < w \<Longrightarrow> (y * w + x) mod w = (x::nat)"
  by simp

lemma index_inj:
  fixes w :: nat
  assumes "x < w" "x' < w" "y * w + x = y' * w + x'"
  shows "y = y' \<and> x = x'"
proof -
  have "(y * w + x) div w = (y' * w + x') div w" "(y * w + x) mod w = (y' * w + x') mod w"
    using assms(3) by simp_all
  then show ?thesis using assms(1,2) by simp
qed

lemma at_in_range:
  assumes "grid_ok grid" "y < m_height grid" "x < m_width grid"
  shows "at grid y x = Some (m_data grid ! (y * m_width grid + x))"
  using assms index_less [of y "m_height grid" x "m_width grid"]
  by (simp add: at_def grid_ok_def)

lemma for_each_closed:
  assumes "\<And>S i. i \<in> set is \<Longrightarrow> body (F S) i = Some (F (S \<union> K i))"
  shows "for_each is body (F S) = Some (F (S \<union> (\<Union>i\<in>set is. K i)))"
  using assms
proof (induction "is" arbitrary: S)
  case Nil
  then show ?case by simp
next
  case (Cons i "is")
  have "body (F S) i = Some (F (S \<union> K i))" using Cons.prems by simp
  moreover have "for_each is body (F (S \<union> K i)) = Some (F ((S \<union> K i) \<union> (\<Union>i\<in>set is. K i)))"
    using Cons.prems by (intro Cons.IH) simp
  moreover have "(S \<union> K i) \<union> (\<Union>i\<in>set is. K i) = S \<union> (\<Union>j\<in>set (i # is). K j)"
    by auto
  ultimately show ?case by simp
qed

lemma update_cell_closed:
  assumes ok: "grid_ok grid" and y: "1 \<le> y" "y + 1 < m_height grid"
    and x: "1 \<le> x" "x + 1 < m_width grid"
  shows "update_cell grid y x =
     Some (grid\<lparr>m_data := (m_data grid)[y * m_width grid + x :=
       (m_data grid ! (y * m_width grid + x))\<lparr>current :=
          next_current (map previous (m_data grid)) (m_width grid) y x\<rparr>]\<rparr>)"
proof -
  let ?w = "m_width grid"
  have len: "length (m_data grid) = ?w * m_height grid"
    using ok by (simp add: grid_ok_def)
  have in_range: "y' * ?w + x' < length (m_data grid)"
    if "y' \<le> y + 1" "x' \<le> x + 1" for y' x'
    using that y x index_less [of y' "m_height grid" x' ?w] len by simp
  have rd: "at grid y' x' = Some (m_data grid ! (y' * ?w + x'))"
    if "y' \<le> y + 1" "x' \<le> x + 1" for y' x'
    using that y x ok by (intro at_in_range) simp_all
  have ss: "size_sub y 1 = y - 1" "size_sub x 1 = x - 1"
    using y x by simp_all
  have nm: "map previous (m_data grid) ! (y' * ?w + x') = previous (m_data grid ! (y' * ?w + x'))"
    if "y' \<le> y + 1" "x' \<le> x + 1" for y' x'
    using in_range [OF that] by simp
  have ym: "y - 1 \<le> y + 1" "y \<le> y + 1" "y + 1 \<le> y + 1"
    and xm: "x - 1 \<le> x + 1" "x \<le> x + 1" "x + 1 \<le> x + 1"
    by simp_all
  note nms = nm [OF ym(1) xm(1)] nm [OF ym(1) xm(2)] nm [OF ym(1) xm(3)]
    nm [OF ym(2) xm(1)] nm [OF ym(2) xm(2)] nm [OF ym(2) xm(3)]
    nm [OF ym(3) xm(1)] nm [OF ym(3) xm(2)] nm [OF ym(3) xm(3)]
  show ?thesis
    unfolding update_cell_def ss next_current_def nms
    by (simp add: rd put_current_def in_range Let_def)
qed

lemma evolved_dims [simp]:
  "m_width (evolved S grid) = m_width grid"
  "m_height (evolved S grid) = m_height grid"
  "length (m_data (evolved S grid)) = length (m_data grid)"
  by (simp_all add: evolved_def)

lemma evolved_nth:
  "i < length (m_data grid) \<Longrightarrow>
   m_data (evolved S grid) ! i =
     (if i \<in> S
      then (m_data grid ! i)\<lparr>current :=
        next_current (map previous (m_data grid)) (m_width grid)
          (i div m_width grid) (i mod m_width grid)\<rparr>
      else m_data grid ! i)"
  by (simp add: evolved_def)

lemma evolved_previous [simp]:
  "map previous (m_data (evolved S grid)) = map previous (m_data grid)"
  by (rule nth_equalityI) (simp_all add: evolved_nth)

lemma evolved_ok [simp]: "grid_ok (evolved S grid) = grid_ok grid"
  by (simp add: grid_ok_def)

lemma evolved_empty [simp]: "evolved {} grid = grid"
  by (simp add: evolved_def map_nth)

lemma update_cell_evolved:
  assumes ok: "grid_ok grid" and y: "1 \<le> y" "y + 1 < m_height grid"
    and x: "1 \<le> x" "x + 1 < m_width grid"
  shows "update_cell (evolved S grid) y x = Some (evolved (S \<union> {y * m_width grid + x}) grid)"
proof -
  let ?w = "m_width grid" and ?i = "y * m_width grid + x"
  let ?v = "next_current (map previous (m_data grid)) ?w y x"
  have i: "?i < length (m_data grid)"
    using ok y x index_less [of y "m_height grid" x ?w] by (simp add: grid_ok_def)
  have dm: "?i div ?w = y" "?i mod ?w = x"
    using x by simp_all
  have "update_cell (evolved S grid) y x =
     Some ((evolved S grid)\<lparr>m_data := (m_data (evolved S grid))[?i :=
       (m_data (evolved S grid) ! ?i)\<lparr>current := ?v\<rparr>]\<rparr>)"
    using update_cell_closed [of "evolved S grid" y x] ok y x by simp
  moreover have "(m_data (evolved S grid))[?i := (m_data (evolved S grid) ! ?i)\<lparr>current := ?v\<rparr>]
     = m_data (evolved (S \<union> {?i}) grid)"
  proof (rule nth_equalityI)
    show "length ((m_data (evolved S grid))[?i := (m_data (evolved S grid) ! ?i)\<lparr>current := ?v\<rparr>])
      = length (m_data (evolved (S \<union> {?i}) grid))"
      by simp
  next
    fix j
    assume "j < length ((m_data (evolved S grid))[?i := (m_data (evolved S grid) ! ?i)\<lparr>current := ?v\<rparr>])"
    then have j: "j < length (m_data grid)" by simp
    show "(m_data (evolved S grid))[?i := (m_data (evolved S grid) ! ?i)\<lparr>current := ?v\<rparr>] ! j
      = m_data (evolved (S \<union> {?i}) grid) ! j"
    proof (cases "j = ?i")
      case True
      then show ?thesis using i dm by (simp add: evolved_nth)
    next
      case False
      then show ?thesis using j by (simp add: evolved_nth)
    qed
  qed
  moreover have "evolved (S \<union> {?i}) grid = (evolved S grid)\<lparr>m_data := m_data (evolved (S \<union> {?i}) grid)\<rparr>"
    by (simp add: evolved_def)
  ultimately show ?thesis by simp
qed

lemma Update_closed:
  assumes ok: "grid_ok grid"
  shows "Update grid = Some (evolved (logical_indices grid) (snapshot grid))"
proof -
  let ?g = "snapshot grid"
  let ?w = "m_width grid" and ?h = "m_height grid"
  have dims [simp]: "m_width ?g = ?w" "m_height ?g = ?h"
    by (simp_all add: snapshot_def)
  have ok': "grid_ok ?g"
    using ok by (simp add: grid_ok_def snapshot_def)
  have wh: "size_sub ?w 2 = ?w - 2" "size_sub ?h 2 = ?h - 2"
    using ok by (simp_all add: grid_ok_def)
  have inner: "for_each (Range_incl 1 (?w - 2)) (\<lambda>grid x. update_cell grid y x) (evolved S ?g)
      = Some (evolved (S \<union> (\<Union>x\<in>set (Range_incl 1 (?w - 2)). {y * ?w + x})) ?g)"
    if "y \<in> set (Range_incl 1 (?h - 2))" for y S
  proof (rule for_each_closed)
    fix S x
    assume "x \<in> set (Range_incl 1 (?w - 2))"
    then have "1 \<le> x" "x + 1 < m_width ?g" "1 \<le> y" "y + 1 < m_height ?g"
      using that ok by (auto simp: Range_incl_def grid_ok_def)
    then show "update_cell (evolved S ?g) y x = Some (evolved (S \<union> {y * ?w + x}) ?g)"
      using update_cell_evolved [OF ok', of y x S] by simp
  qed
  have "for_each (Range_incl 1 (?h - 2))
          (\<lambda>grid y. for_each (Range_incl 1 (size_sub (m_width grid) 2))
             (\<lambda>grid x. update_cell grid y x) grid)
          (evolved {} ?g)
    = Some (evolved ({} \<union> (\<Union>y\<in>set (Range_incl 1 (?h - 2)).
         \<Union>x\<in>set (Range_incl 1 (?w - 2)). {y * ?w + x})) ?g)"
  proof (rule for_each_closed)
    fix S y
    assume "y \<in> set (Range_incl 1 (?h - 2))"
    then show "for_each (Range_incl 1 (size_sub (m_width (evolved S ?g)) 2))
        (\<lambda>grid x. update_cell grid y x) (evolved S ?g)
      = Some (evolved (S \<union> (\<Union>x\<in>set (Range_incl 1 (?w - 2)). {y * ?w + x})) ?g)"
      unfolding evolved_dims dims wh by (rule inner)
  qed
  then show ?thesis
    by (simp add: Update_def Let_def wh logical_indices_def)
qed

lemma int32_sum_count:
  "0 + int32_of_bool b1 + int32_of_bool b2 + int32_of_bool b3 + int32_of_bool b4
     + int32_of_bool b5 + int32_of_bool b6 + int32_of_bool b7 + int32_of_bool b8
   = int (length (filter id [b1, b2, b3, b4, b5, b6, b7, b8]))"
  by (simp add: int32_of_bool_def)

lemma next_current_rule:
  assumes ok: "grid_ok grid" and y: "1 \<le> y" "y + 1 < m_height grid"
    and x: "1 \<le> x" "x + 1 < m_width grid"
  shows "next_current (map current (m_data grid)) (m_width grid) y x
    = spec_new_current (alive grid y x) (neighborCount (alive grid) y x)"
proof -
  let ?w = "m_width grid"
  have nm: "map current (m_data grid) ! (y' * ?w + x') = alive grid y' x'"
    if "y' \<le> y + 1" "x' \<le> x + 1" for y' x'
  proof -
    have "y' < m_height grid" "x' < ?w" using that y x by simp_all
    then have "at grid y' x' = Some (m_data grid ! (y' * ?w + x'))"
      and "y' * ?w + x' < length (m_data grid)"
      using ok index_less [of y' "m_height grid" x' ?w]
      by (simp_all add: at_in_range grid_ok_def)
    then show ?thesis by (simp add: alive_def)
  qed
  have ym: "y - 1 \<le> y + 1" "y \<le> y + 1" "y + 1 \<le> y + 1"
    and xm: "x - 1 \<le> x + 1" "x \<le> x + 1" "x + 1 \<le> x + 1"
    by simp_all
  note nms = nm [OF ym(1) xm(1)] nm [OF ym(1) xm(2)] nm [OF ym(1) xm(3)]
    nm [OF ym(2) xm(1)] nm [OF ym(2) xm(2)] nm [OF ym(2) xm(3)]
    nm [OF ym(3) xm(1)] nm [OF ym(3) xm(2)] nm [OF ym(3) xm(3)]
  show ?thesis
    unfolding next_current_def Let_def nms int32_sum_count neighborCount_def spec_new_current_def
    by (simp add: int32_of_bool_def)
qed

subsection \<open>One call of Update\<close>

lemma Update_total: "grid_ok grid \<Longrightarrow> \<exists>grid'. Update grid = Some grid'"
  by (simp add: Update_closed)

lemma snapshot_simps [simp]:
  "m_width (snapshot grid) = m_width grid"
  "m_height (snapshot grid) = m_height grid"
  "length (m_data (snapshot grid)) = length (m_data grid)"
  "map previous (m_data (snapshot grid)) = map current (m_data grid)"
  "map current (m_data (snapshot grid)) = map current (m_data grid)"
  "grid_ok (snapshot grid) = grid_ok grid"
  by (simp_all add: snapshot_def grid_ok_def)

lemma snapshot_nth:
  "i < length (m_data grid) \<Longrightarrow>
   m_data (snapshot grid) ! i = \<lparr>previous = current (m_data grid ! i), current = current (m_data grid ! i)\<rparr>"
  by (simp add: snapshot_def)

lemma Update_dims:
  assumes "Update grid = Some grid'" "grid_ok grid"
  shows "m_width grid' = m_width grid" "m_height grid' = m_height grid"
    "length (m_data grid') = length (m_data grid)" "grid_ok grid'"
proof -
  have "grid' = evolved (logical_indices grid) (snapshot grid)"
    using assms by (simp add: Update_closed)
  then show "m_width grid' = m_width grid" "m_height grid' = m_height grid"
    "length (m_data grid') = length (m_data grid)" "grid_ok grid'"
    using assms(2) by simp_all
qed

lemma logical_index:
  assumes "grid_ok grid" "y < m_height grid" "x < m_width grid"
  shows "y * m_width grid + x \<in> logical_indices grid \<longleftrightarrow> logical grid y x"
proof
  assume "y * m_width grid + x \<in> logical_indices grid"
  then obtain y' x' where yx: "1 \<le> y'" "y' + 1 < m_height grid" "1 \<le> x'" "x' + 1 < m_width grid"
    and eq: "y * m_width grid + x = y' * m_width grid + x'"
    using assms(1) by (auto simp: logical_indices_def Range_incl_def grid_ok_def)
  have "y = y' \<and> x = x'"
    using index_inj [OF _ _ eq] assms(3) yx(4) by simp
  then show "logical grid y x" using yx by (simp add: logical_def)
next
  assume "logical grid y x"
  then have "y \<in> set (Range_incl 1 (m_height grid - 2))" "x \<in> set (Range_incl 1 (m_width grid - 2))"
    by (auto simp: Range_incl_def logical_def)
  then show "y * m_width grid + x \<in> logical_indices grid"
    unfolding logical_indices_def by blast
qed

lemma alive_in_range:
  assumes "grid_ok grid" "y < m_height grid" "x < m_width grid"
  shows "alive grid y x = current (m_data grid ! (y * m_width grid + x))"
  using assms by (simp add: alive_def at_in_range)

lemma Update_at:
  assumes ok: "grid_ok grid" and y: "y < m_height grid" and x: "x < m_width grid"
    and up: "Update grid = Some grid'"
  shows "at grid' y x =
    Some \<lparr>previous = alive grid y x,
          current = (if logical grid y x
                     then spec_new_current (alive grid y x) (neighborCount (alive grid) y x)
                     else alive grid y x)\<rparr>"
proof -
  let ?w = "m_width grid" and ?i = "y * m_width grid + x"
  have g': "grid' = evolved (logical_indices grid) (snapshot grid)"
    using up ok by (simp add: Update_closed)
  have i: "?i < length (m_data grid)"
    using ok y x index_less [of y "m_height grid" x ?w] by (simp add: grid_ok_def)
  have dm: "?i div ?w = y" "?i mod ?w = x"
    using x by simp_all
  have a: "alive grid y x = current (m_data grid ! ?i)"
    using ok y x by (rule alive_in_range)
  have rd: "at grid' y x = Some (m_data grid' ! ?i)"
    using ok y x i by (simp add: g' at_def)
  have nth: "m_data grid' ! ?i =
     (if ?i \<in> logical_indices grid
      then \<lparr>previous = current (m_data grid ! ?i),
             current = next_current (map current (m_data grid)) ?w y x\<rparr>
      else \<lparr>previous = current (m_data grid ! ?i), current = current (m_data grid ! ?i)\<rparr>)"
    using i dm by (simp add: g' evolved_nth snapshot_nth)
  show ?thesis
  proof (cases "logical grid y x")
    case True
    then have yx: "1 \<le> y" "y + 1 < m_height grid" "1 \<le> x" "x + 1 < m_width grid"
      by (simp_all add: logical_def)
    have "?i \<in> logical_indices grid"
      using True ok y x by (simp add: logical_index)
    then show ?thesis
      using True a next_current_rule [OF ok yx] by (simp add: rd nth)
  next
    case False
    then have "?i \<notin> logical_indices grid"
      using ok y x by (simp add: logical_index)
    then show ?thesis
      using False a by (simp add: rd nth)
  qed
qed

subsection \<open>Example grids and neighbour counts\<close>

lemma grid_of_simps [simp]:
  "m_width (grid_of w h live) = w"
  "m_height (grid_of w h live) = h"
  "length (m_data (grid_of w h live)) = w * h"
  by (simp_all add: grid_of_def)

lemma grid_of_ok:
  "2 \<le> w \<Longrightarrow> 2 \<le> h \<Longrightarrow> w * h < 18446744073709551616 \<Longrightarrow> grid_ok (grid_of w h live)"
  by (simp add: grid_ok_def)

lemma at_grid_of:
  assumes "y < h" "x < w"
  shows "at (grid_of w h live) y x = Some \<lparr>previous = False, current = live y x\<rparr>"
  using assms index_less [of y h x w] by (simp add: at_def grid_of_def)

lemma alive_grid_of:
  "y < h \<Longrightarrow> x < w \<Longrightarrow> alive (grid_of w h live) y x = live y x"
  by (simp add: alive_def at_grid_of)

lemma neighborCount_cong:
  assumes "\<And>y' x'. y - 1 \<le> y' \<Longrightarrow> y' \<le> y + 1 \<Longrightarrow> x - 1 \<le> x' \<Longrightarrow> x' \<le> x + 1 \<Longrightarrow> f y' x' = g y' x'"
  shows "neighborCount f y x = neighborCount g y x"
  unfolding neighborCount_def by (simp add: assms)

lemma was_alive_Update:
  assumes "grid_ok grid" "y < m_height grid" "x < m_width grid" "Update grid = Some grid'"
  shows "was_alive grid' y x = alive grid y x"
  using Update_at [OF assms] by (simp add: was_alive_def)

lemma Range_incl_length [simp]: "length (Range_incl m n) = Suc n - m"
  by (auto simp: Range_incl_def)

lemma snapshot_eq:
  fixes grid1 grid2 :: "Cell Grid"
  assumes "m_width grid1 = m_width grid2" "m_height grid1 = m_height grid2"
    and "map current (m_data grid1) = map current (m_data grid2)"
  shows "snapshot grid1 = snapshot grid2"
proof -
  let ?both = "\<lambda>v. \<lparr>previous = v, current = v\<rparr>"
  have "m_data (snapshot grid1) = map ?both (map current (m_data grid1))"
    by (simp add: snapshot_def)
  also have "\<dots> = map ?both (map current (m_data grid2))"
    by (simp only: assms(3))
  also have "\<dots> = m_data (snapshot grid2)"
    by (simp add: snapshot_def)
  finally have "m_data (snapshot grid1) = m_data (snapshot grid2)" .
  then show ?thesis
    using assms(1,2) by (simp add: snapshot_def)
qed

subsection \<open>The border stays dead\<close>

lemma padding_Update:
  assumes "Update grid = Some grid'" "grid_ok grid"
  shows "padding grid' y x = padding grid y x"
  using Update_dims [OF assms] by (simp add: padding_def logical_def)

lemma Update_padding_dead:
  assumes ok: "grid_ok grid" and pd: "padding_dead grid" and up: "Update grid = Some grid'"
  shows "padding_dead grid'"
  unfolding padding_dead_def
proof (intro ballI impI)
  fix y x
  assume "y \<in> {..<m_height grid'}" "x \<in> {..<m_width grid'}" and p: "padding grid' y x"
  then have yx: "y < m_height grid" "x < m_width grid"
    using Update_dims [OF up ok] by simp_all
  have p': "padding grid y x"
    using p padding_Update [OF up ok] by simp
  then have "at grid y x = Some \<lparr>previous = False, current = False\<rparr>"
    using pd yx by (simp add: padding_dead_def)
  then have "\<not> alive grid y x"
    by (simp add: alive_def)
  moreover have "\<not> logical grid y x"
    using p' by (simp add: padding_def)
  ultimately show "at grid' y x = Some \<lparr>previous = False, current = False\<rparr>"
    using Update_at [OF ok yx up] by simp
qed

lemma steps_invariant:
  assumes "grid_ok grid" "padding_dead grid"
  shows "\<exists>grid'. steps n grid = Some grid' \<and> grid_ok grid' \<and> padding_dead grid'
    \<and> m_width grid' = m_width grid \<and> m_height grid' = m_height grid"
  using assms
proof (induction n arbitrary: grid)
  case 0
  then show ?case by simp
next
  case (Suc n)
  obtain grid1 where up: "Update grid = Some grid1"
    using Update_total [OF Suc.prems(1)] by blast
  have "grid_ok grid1" "padding_dead grid1"
    using Update_dims [OF up Suc.prems(1)] Update_padding_dead [OF Suc.prems up] by simp_all
  from Suc.IH [OF this] show ?case
    using up Update_dims [OF up Suc.prems(1)] by auto
qed

subsection \<open>Patterns\<close>

lemma alive_Update:
  assumes "grid_ok grid" "y < m_height grid" "x < m_width grid" "Update grid = Some grid'"
  shows "alive grid' y x =
    (if logical grid y x then spec_new_current (alive grid y x) (neighborCount (alive grid) y x)
     else alive grid y x)"
  using Update_at [OF assms] by (simp add: alive_def)

lemma row_to_col:
  fixes r c :: nat
  assumes "1 \<le> y" "1 \<le> x" "2 \<le> r" "1 \<le> c"
  shows "spec_new_current (y = r \<and> c \<le> x \<and> x \<le> c + 2)
      (neighborCount (\<lambda>y x. y = r \<and> c \<le> x \<and> x \<le> c + 2) y x)
    = (x = c + 1 \<and> r - 1 \<le> y \<and> y \<le> r + 1)"
  using assms unfolding neighborCount_def spec_new_current_def
  by auto

lemma col_to_row:
  fixes r c :: nat
  assumes "1 \<le> y" "1 \<le> x" "2 \<le> r" "1 \<le> c"
  shows "spec_new_current (x = c + 1 \<and> r - 1 \<le> y \<and> y \<le> r + 1)
      (neighborCount (\<lambda>y x. x = c + 1 \<and> r - 1 \<le> y \<and> y \<le> r + 1) y x)
    = (y = r \<and> c \<le> x \<and> x \<le> c + 2)"
  using assms unfolding neighborCount_def spec_new_current_def
  by auto

text \<open>One step on a grid whose live cells are given by a predicate on logical cells.\<close>

lemma Update_pattern:
  assumes ok: "grid_ok grid"
    and pat: "\<And>y x. y < m_height grid \<Longrightarrow> x < m_width grid \<Longrightarrow> alive grid y x = p y x"
    and nxt: "\<And>y x. logical grid y x \<Longrightarrow> spec_new_current (p y x) (neighborCount p y x) = q y x"
    and brd: "\<And>y x. y < m_height grid \<Longrightarrow> x < m_width grid \<Longrightarrow> \<not> logical grid y x \<Longrightarrow> p y x = q y x"
    and up: "Update grid = Some grid'"
    and y: "y < m_height grid" and x: "x < m_width grid"
  shows "alive grid' y x = q y x"
proof (cases "logical grid y x")
  case True
  have "neighborCount (alive grid) y x = neighborCount p y x"
  proof (rule neighborCount_cong)
    fix y' x'
    assume "y' \<le> y + 1" "x' \<le> x + 1"
    then have "y' < m_height grid" "x' < m_width grid"
      using True by (simp_all add: logical_def)
    then show "alive grid y' x' = p y' x'" by (rule pat)
  qed
  then show ?thesis
    using True alive_Update [OF ok y x up] pat [OF y x] nxt [OF True] by simp
next
  case False
  then show ?thesis
    using alive_Update [OF ok y x up] pat [OF y x] brd [OF y x False] by simp
qed

subsection \<open>CopyToImage\<close>

lemma painted_simps [simp]:
  "im_width (painted S grid img) = im_width img"
  "im_height (painted S grid img) = im_height img"
  "length (im_data (painted S grid img)) = length (im_data img)"
  "image_ok (painted S grid img) = image_ok img"
  by (simp_all add: painted_def image_ok_def)

lemma painted_nth:
  "i < length (im_data img) \<Longrightarrow>
   im_data (painted S grid img) ! i =
     (if i \<in> S then cell_color grid (i div im_width img) (i mod im_width img)
      else im_data img ! i)"
  by (simp add: painted_def)

lemma painted_empty [simp]: "painted {} grid img = img"
  by (simp add: painted_def map_nth)

lemma copy_pixel_painted:
  assumes ok: "image_ok img" and rd: "reads_inside grid img"
    and y: "y < im_height img" and x: "x < im_width img"
  shows "copy_pixel grid (painted S grid img) y x
    = Some (painted (S \<union> {y * im_width img + x}) grid img)"
proof -
  let ?w = "im_width img" and ?i = "y * im_width img + x"
  let ?c = "cell_color grid y x"
  have i: "?i < length (im_data img)"
    using ok y x index_less [of y "im_height img" x ?w] by (simp add: image_ok_def)
  have dm: "?i div ?w = y" "?i mod ?w = x"
    using x by simp_all
  have g: "(y + 1) * m_width grid + (x + 1) < length (m_data grid)"
    using rd y x by (simp add: reads_inside_def)
  have "copy_pixel grid (painted S grid img) y x
    = Some ((painted S grid img)\<lparr>im_data := (im_data (painted S grid img))[?i := ?c]\<rparr>)"
    using g i by (simp add: copy_pixel_def at_def image_put_def cell_color_def)
  moreover have "(im_data (painted S grid img))[?i := ?c] = im_data (painted (S \<union> {?i}) grid img)"
  proof (rule nth_equalityI)
    show "length ((im_data (painted S grid img))[?i := ?c]) = length (im_data (painted (S \<union> {?i}) grid img))"
      by simp
  next
    fix j
    assume "j < length ((im_data (painted S grid img))[?i := ?c])"
    then have j: "j < length (im_data img)" by simp
    show "(im_data (painted S grid img))[?i := ?c] ! j = im_data (painted (S \<union> {?i}) grid img) ! j"
    proof (cases "j = ?i")
      case True
      then show ?thesis using i dm by (simp add: painted_nth)
    next
      case False
      then show ?thesis using j by (simp add: painted_nth)
    qed
  qed
  moreover have "painted (S \<union> {?i}) grid img
    = (painted S grid img)\<lparr>im_data := im_data (painted (S \<union> {?i}) grid img)\<rparr>"
    by (simp add: painted_def)
  ultimately show ?thesis by simp
qed

lemma CopyToImage_closed:
  assumes ok: "image_ok img" and rd: "reads_inside grid img"
  shows "CopyToImage grid img = Some (painted (pixel_indices img) grid img)"
proof -
  let ?w = "im_width img" and ?h = "im_height img"
  have inner: "for_each (step ?w) (\<lambda>img x. copy_pixel grid img y x) (painted S grid img)
      = Some (painted (S \<union> (\<Union>x\<in>set (step ?w). {y * ?w + x})) grid img)"
    if "y \<in> set (step ?h)" for y S
  proof (rule for_each_closed)
    fix S x
    assume "x \<in> set (step ?w)"
    then have "x < ?w" "y < ?h"
      using that by (simp_all add: step_def)
    then show "copy_pixel grid (painted S grid img) y x = Some (painted (S \<union> {y * ?w + x}) grid img)"
      using copy_pixel_painted [OF ok rd] by simp
  qed
  have "for_each (step ?h)
          (\<lambda>img y. for_each (step (im_width img)) (\<lambda>img x. copy_pixel grid img y x) img)
          (painted {} grid img)
    = Some (painted ({} \<union> (\<Union>y\<in>set (step ?h). \<Union>x\<in>set (step ?w). {y * ?w + x})) grid img)"
  proof (rule for_each_closed)
    fix S y
    assume "y \<in> set (step ?h)"
    then show "for_each (step (im_width (painted S grid img)))
        (\<lambda>img x. copy_pixel grid img y x) (painted S grid img)
      = Some (painted (S \<union> (\<Union>x\<in>set (step ?w). {y * ?w + x})) grid img)"
      unfolding painted_simps by (rule inner)
  qed
  then show ?thesis
    by (simp add: CopyToImage_def pixel_indices_def)
qed

lemma pixel_index:
  assumes "y < im_height img" "x < im_width img"
  shows "y * im_width img + x \<in> pixel_indices img"
proof -
  have "y \<in> set (step (im_height img))" "x \<in> set (step (im_width img))"
    using assms by (simp_all add: step_def)
  then show ?thesis unfolding pixel_indices_def by blast
qed

lemma CopyToImage_pixel:
  assumes ok: "image_ok img" and rd: "reads_inside grid img"
    and y: "y < im_height img" and x: "x < im_width img"
    and cp: "CopyToImage grid img = Some img'"
  shows "pixel img' y x = Some (if alive grid (y + 1) (x + 1) then colorLivingCell else colorDeadCell)"
proof -
  let ?i = "y * im_width img + x"
  have img': "img' = painted (pixel_indices img) grid img"
    using cp CopyToImage_closed [OF ok rd] by simp
  have i: "?i < length (im_data img)"
    using ok y x index_less [of y "im_height img" x "im_width img"] by (simp add: image_ok_def)
  have dm: "?i div im_width img = y" "?i mod im_width img = x"
    using x by simp_all
  have g: "(y + 1) * m_width grid + (x + 1) < length (m_data grid)"
    using rd y x by (simp add: reads_inside_def)
  have a: "alive grid (y + 1) (x + 1) = current (m_data grid ! ((y + 1) * m_width grid + (x + 1)))"
    using g by (simp add: alive_def at_def)
  show ?thesis
    using i dm pixel_index [OF y x] a
    by (simp add: img' pixel_def painted_nth cell_color_def)
qed

lemma reads_inside_smaller:
  assumes "grid_ok grid" "im_width img + 2 \<le> m_width grid" "im_height img + 2 \<le> m_height grid"
  shows "reads_inside grid img"
  unfolding reads_inside_def
proof (intro ballI)
  fix y x
  assume "y \<in> {..<im_height img}" "x \<in> {..<im_width img}"
  then have "y + 1 < m_height grid" "x + 1 < m_width grid"
    using assms by simp_all
  then show "(y + 1) * m_width grid + (x + 1) < length (m_data grid)"
    using assms(1) index_less [of "y + 1" "m_height grid" "x + 1" "m_width grid"]
    by (simp add: grid_ok_def)
qed

lemma CopyToImage_dims:
  assumes "image_ok img" "reads_inside grid img" "CopyToImage grid img = Some img'"
  shows "im_width img' = im_width img" "im_height img' = im_height img" "image_ok img'"
proof -
  have "img' = painted (pixel_indices img) grid img"
    using assms CopyToImage_closed by simp
  then show "im_width img' = im_width img" "im_height img' = im_height img" "image_ok img'"
    using assms(1) by simp_all
qed

lemma colors_differ: "colorLivingCell \<noteq> colorDeadCell"
  by (simp add: colorLivingCell_def colorDeadCell_def)

lemma only_3_4_ok: "grid_ok only_3_4"
  by (simp add: only_3_4_def fieldWidth_def fieldHeight_def grid_of_ok)

lemma main_image_ok: "image_ok main_image"
  by (simp add: main_image_def new_image_def image_ok_def)

subsection \<open>The mouse edit\<close>

lemma sdiv_10_nonneg: "0 \<le> k \<Longrightarrow> k sdiv 10 = k div (10::int)"
  by (auto simp: signed_divide_int_def sgn_if)

lemma size_of_int_nat: "n < 18446744073709551616 \<Longrightarrow> size_of_int (int n) = n"
  by (simp add: size_of_int_def)

lemma edit_target_canvas:
  assumes px: "0 \<le> px" "px \<le> 598" and py: "0 \<le> py" "py \<le> 598"
  shows "edit_target (Point px py) = Point (int (nat (px div 10 + 1))) (int (nat (py div 10 + 1)))"
    and "1 \<le> nat (px div 10 + 1)" "nat (px div 10 + 1) \<le> 60"
    and "1 \<le> nat (py div 10 + 1)" "nat (py div 10 + 1) \<le> 60"
  using assms by (simp_all add: edit_target_def sdiv_10_nonneg)

lemma point_index_inside:
  assumes ok: "grid_ok grid" and y: "y < m_height grid" and x: "x < m_width grid"
  shows "point_index grid (Point (int x) (int y)) = y * m_width grid + x"
    and "y * m_width grid + x < length (m_data grid)"
proof -
  have len: "length (m_data grid) = m_width grid * m_height grid"
    "length (m_data grid) < 18446744073709551616"
    using ok by (simp_all add: grid_ok_def)
  show i: "y * m_width grid + x < length (m_data grid)"
    using index_less [OF y x] len by simp
  have "m_width grid \<le> length (m_data grid)" "m_height grid \<le> length (m_data grid)"
    using ok by (simp_all add: grid_ok_def)
  then have "x < 18446744073709551616" "y < 18446744073709551616"
    using x y len(2) by simp_all
  then show "point_index grid (Point (int x) (int y)) = y * m_width grid + x"
    using i len(2) by (simp add: point_index_def size_of_int_nat)
qed

lemma new_grid_simps [simp]:
  "m_width (new_grid w h v) = w"
  "m_height (new_grid w h v) = h"
  "length (m_data (new_grid w h v)) = w * h"
  by (simp_all add: new_grid_def)

lemma new_grid_nth: "i < w * h \<Longrightarrow> m_data (new_grid w h v) ! i = v"
  by (simp add: new_grid_def)

lemma new_grid_ok:
  "2 \<le> w \<Longrightarrow> 2 \<le> h \<Longrightarrow> w * h < 18446744073709551616 \<Longrightarrow> grid_ok (new_grid w h v)"
  by (simp add: grid_ok_def)

lemma main_grid_ok: "grid_ok main_grid"
  unfolding main_grid_def by (rule new_grid_ok) (simp_all add: fieldWidth_def fieldHeight_def)

subsection \<open>FillRandom\<close>

lemma for_each_upt:
  assumes "\<And>i. a \<le> i \<Longrightarrow> i < b \<Longrightarrow> body (F i) i = Some (F (Suc i))" and "a \<le> b"
  shows "for_each [a..<b] body (F a) = Some (F b)"
  using assms
proof (induction "b - a" arbitrary: a)
  case 0
  then show ?case by simp
next
  case (Suc n)
  then have ab: "a < b" by simp
  have "for_each [Suc a..<b] body (F (Suc a)) = Some (F b)"
    using Suc.prems Suc.hyps(2) ab by (intro Suc.hyps(1)) simp_all
  moreover have "body (F a) a = Some (F (Suc a))"
    using Suc.prems(1) ab by simp
  ultimately show ?case
    using ab by (simp add: upt_conv_Cons)
qed

lemma filled_simps [simp]:
  "m_width (fst (filled k grid rng)) = m_width grid"
  "m_height (fst (filled k grid rng)) = m_height grid"
  "length (m_data (fst (filled k grid rng))) = length (m_data grid)"
  "snd (filled k grid rng) = sdrop k rng"
  by (simp_all add: filled_def)

lemma filled_nth:
  "i < length (m_data grid) \<Longrightarrow>
   m_data (fst (filled k grid rng)) ! i =
     (if logical grid (i div m_width grid) (i mod m_width grid)
         \<and> draw_index grid (i div m_width grid) (i mod m_width grid) < k
      then \<lparr>previous = False,
            current = rng !! draw_index grid (i div m_width grid) (i mod m_width grid)\<rparr>
      else \<lparr>previous = False, current = False\<rparr>)"
  by (simp add: filled_def)

lemma filled_0: "filled 0 grid rng = (fill grid \<lparr>previous = False, current = False\<rparr>, rng)"
proof -
  have "map (\<lambda>i. \<lparr>previous = False, current = False\<rparr>) [0..<length (m_data grid)]
    = map (\<lambda>_. \<lparr>previous = False, current = False\<rparr>) (m_data grid)"
    by (rule nth_equalityI) simp_all
  then show ?thesis
    by (simp add: filled_def fill_def)
qed

lemma draw_index_inj:
  assumes "logical grid y x" "logical grid y' x'" "draw_index grid y x = draw_index grid y' x'"
  shows "y = y' \<and> x = x'"
proof -
  have "x - 1 < m_width grid - 2" "x' - 1 < m_width grid - 2"
    using assms(1,2) by (auto simp: logical_def)
  then have "y - 1 = y' - 1 \<and> x - 1 = x' - 1"
    using assms(3) unfolding draw_index_def by (rule index_inj)
  then show ?thesis
    using assms(1,2) by (auto simp: logical_def)
qed

lemma fill_cell_filled:
  assumes ok: "grid_ok grid" and lg: "logical grid y x"
  shows "fill_cell (filled (draw_index grid y x) grid rng) y x
    = Some (filled (Suc (draw_index grid y x)) grid rng)"
proof -
  let ?w = "m_width grid" and ?i = "y * m_width grid + x" and ?k = "draw_index grid y x"
  let ?g = "fst (filled ?k grid rng)"
  let ?c = "\<lparr>previous = False, current = rng !! ?k\<rparr>"
  have yx: "y < m_height grid" "x < ?w"
    using lg by (simp_all add: logical_def)
  have i: "?i < length (m_data grid)"
    using ok yx index_less [of y "m_height grid" x ?w] by (simp add: grid_ok_def)
  have dm: "?i div ?w = y" "?i mod ?w = x"
    using yx by simp_all
  have "fill_cell (filled ?k grid rng) y x = Some (?g\<lparr>m_data := (m_data ?g)[?i := ?c]\<rparr>, sdrop (Suc ?k) rng)"
    using i by (simp add: fill_cell_def RandomBool_def put_def split: prod.splits)
      (simp add: filled_def)
  moreover have "(m_data ?g)[?i := ?c] = m_data (fst (filled (Suc ?k) grid rng))"
  proof (rule nth_equalityI)
    show "length ((m_data ?g)[?i := ?c]) = length (m_data (fst (filled (Suc ?k) grid rng)))"
      by simp
  next
    fix j
    assume "j < length ((m_data ?g)[?i := ?c])"
    then have j: "j < length (m_data grid)" by simp
    show "(m_data ?g)[?i := ?c] ! j = m_data (fst (filled (Suc ?k) grid rng)) ! j"
    proof (cases "j = ?i")
      case True
      then show ?thesis using i dm lg by (simp add: filled_nth)
    next
      case False
      have "draw_index grid (j div ?w) (j mod ?w) \<noteq> ?k" if "logical grid (j div ?w) (j mod ?w)"
      proof
        assume "draw_index grid (j div ?w) (j mod ?w) = ?k"
        then have "j div ?w = y \<and> j mod ?w = x"
          using draw_index_inj [OF that lg] by simp
        then have "j = ?i"
          using div_mult_mod_eq [of j ?w] by simp
        then show False using False by simp
      qed
      then show ?thesis
        using False j by (auto simp: filled_nth less_Suc_eq)
    qed
  qed
  moreover have "filled (Suc ?k) grid rng
    = (?g\<lparr>m_data := m_data (fst (filled (Suc ?k) grid rng))\<rparr>, sdrop (Suc ?k) rng)"
    by (simp add: filled_def)
  ultimately show ?thesis by simp
qed

lemma Range_incl_field:
  assumes "2 \<le> n"
  shows "Range_incl 1 (size_sub n 2) = [1..<n - 1]"
proof -
  have "Suc (n - 2) = n - 1" using assms by arith
  then show ?thesis
    unfolding Range_incl_def size_sub_le [OF assms] by (simp only:)
qed

lemma FillRandom_closed:
  assumes ok: "grid_ok grid"
  shows "FillRandom (grid, rng) = Some (filled ((m_height grid - 2) * (m_width grid - 2)) grid rng)"
proof -
  let ?w = "m_width grid" and ?h = "m_height grid"
  let ?W = "m_width grid - 2"
  let ?dead = "\<lparr>previous = False, current = False\<rparr>"
  have wh: "2 \<le> ?w" "2 \<le> ?h"
    using ok by (simp_all add: grid_ok_def)
  have inner: "for_each [1..<?w - 1] (\<lambda>s x. fill_cell s y x) (filled ((y - 1) * ?W) grid rng)
      = Some (filled (y * ?W) grid rng)"
    if y: "1 \<le> y" "y < ?h - 1" for y
  proof -
    let ?F = "\<lambda>x. filled ((y - 1) * ?W + (x - 1)) grid rng"
    have "for_each [1..<?w - 1] (\<lambda>s x. fill_cell s y x) (?F 1) = Some (?F (?w - 1))"
    proof (rule for_each_upt)
      fix x
      assume x: "1 \<le> x" "x < ?w - 1"
      then have lg: "logical grid y x"
        using y unfolding logical_def by linarith
      have "(y - 1) * ?W + (Suc x - 1) = Suc ((y - 1) * ?W + (x - 1))"
        using x by simp
      then show "fill_cell (?F x) y x = Some (?F (Suc x))"
        using fill_cell_filled [OF ok lg, of rng] by (simp add: draw_index_def)
    next
      show "1 \<le> ?w - 1" using wh by simp
    qed
    moreover have "(y - 1) * ?W + (?w - 1 - 1) = y * ?W"
    proof -
      have "(y - 1) * ?W + ?W = Suc (y - 1) * ?W" by simp
      then show ?thesis using y by simp
    qed
    ultimately show ?thesis by simp
  qed
  let ?G = "\<lambda>y. filled ((y - 1) * ?W) grid rng"
  have "for_each [1..<?h - 1]
      (\<lambda>s y. for_each (Range_incl 1 (size_sub (m_width (fst s)) 2)) (\<lambda>s x. fill_cell s y x) s)
      (?G 1) = Some (?G (?h - 1))"
  proof (rule for_each_upt)
    fix y
    assume y: "1 \<le> y" "y < ?h - 1"
    have r: "Range_incl 1 (size_sub (m_width (fst (?G y))) 2) = [1..<?w - 1]"
      unfolding filled_simps using wh(1) by (rule Range_incl_field)
    show "for_each (Range_incl 1 (size_sub (m_width (fst (?G y))) 2)) (\<lambda>s x. fill_cell s y x) (?G y)
      = Some (?G (Suc y))"
      unfolding r using inner [OF y] by simp
  next
    show "1 \<le> ?h - 1" using wh by simp
  qed
  moreover have "FillRandom (grid, rng) = for_each [1..<?h - 1]
      (\<lambda>s y. for_each (Range_incl 1 (size_sub (m_width (fst s)) 2)) (\<lambda>s x. fill_cell s y x) s)
      (filled 0 grid rng)"
    unfolding filled_0 using Range_incl_field [OF wh(2)]
    by (simp add: FillRandom_def fill_def)
  moreover have "?h - 1 - 1 = ?h - 2" by simp
  ultimately show ?thesis
    by simp
qed

lemma draw_index_less:
  assumes "logical grid y x"
  shows "draw_index grid y x < (m_height grid - 2) * (m_width grid - 2)"
proof -
  have "y - 1 < m_height grid - 2" "x - 1 < m_width grid - 2"
    using assms by (auto simp: logical_def)
  then show ?thesis
    unfolding draw_index_def using index_less [of "y - 1" "m_height grid - 2" "x - 1" "m_width grid - 2"]
    by (simp add: mult.commute)
qed

lemma FillRandom_at:
  assumes ok: "grid_ok grid" and y: "y < m_height grid" and x: "x < m_width grid"
    and fr: "FillRandom (grid, rng) = Some (grid', rng')"
  shows "at grid' y x =
    Some (if logical grid y x then \<lparr>previous = False, current = rng !! draw_index grid y x\<rparr>
          else \<lparr>previous = False, current = False\<rparr>)"
proof -
  let ?n = "(m_height grid - 2) * (m_width grid - 2)"
  let ?i = "y * m_width grid + x"
  have g': "grid' = fst (filled ?n grid rng)"
    using fr FillRandom_closed [OF ok, of rng] by simp
  have i: "?i < length (m_data grid)"
    using ok y x index_less [of y "m_height grid" x "m_width grid"] by (simp add: grid_ok_def)
  have dm: "?i div m_width grid = y" "?i mod m_width grid = x"
    using x by simp_all
  show ?thesis
    using i dm draw_index_less [of grid y x]
    by (simp add: g' at_def filled_nth)
qed

lemma FillRandom_dims:
  assumes ok: "grid_ok grid" and fr: "FillRandom (grid, rng) = Some (grid', rng')"
  shows "m_width grid' = m_width grid" "m_height grid' = m_height grid" "grid_ok grid'"
    "rng' = sdrop ((m_height grid - 2) * (m_width grid - 2)) rng"
proof -
  have "(grid', rng') = filled ((m_height grid - 2) * (m_width grid - 2)) grid rng"
    using fr FillRandom_closed [OF ok, of rng] by simp
  then have g': "grid' = fst (filled ((m_height grid - 2) * (m_width grid - 2)) grid rng)"
    and r': "rng' = snd (filled ((m_height grid - 2) * (m_width grid - 2)) grid rng)"
    by (metis fst_conv, metis snd_conv)
  show "m_width grid' = m_width grid" "m_height grid' = m_height grid"
    unfolding g' by simp_all
  show "grid_ok grid'"
    using ok unfolding g' grid_ok_def by simp
  show "rng' = sdrop ((m_height grid - 2) * (m_width grid - 2)) rng"
    unfolding r' by simp
qed

lemma upt_0_9: "[0..<9] = [0, 1, 2, 3, 4, 5, 6, 7, 8::nat]"
  by code_simp

subsection \<open>The loop of Main\<close>

lemma padding_deadI:
  assumes "\<And>y x. y < m_height grid \<Longrightarrow> x < m_width grid \<Longrightarrow> padding grid y x
    \<Longrightarrow> at grid y x = Some \<lparr>previous = False, current = False\<rparr>"
  shows "padding_dead grid"
  unfolding padding_dead_def using assms by simp

lemma padding_deadD:
  assumes "padding_dead grid" "y < m_height grid" "x < m_width grid" "padding grid y x"
  shows "at grid y x = Some \<lparr>previous = False, current = False\<rparr>"
  using assms unfolding padding_dead_def by simp

lemma padding_same_dims:
  assumes "m_width grid' = m_width grid" "m_height grid' = m_height grid"
  shows "padding grid' y x = padding grid y x"
  using assms by (simp add: padding_def logical_def)

lemma FillRandom_padding_dead:
  assumes ok: "grid_ok grid" and fr: "FillRandom (grid, rng) = Some (grid', rng')"
  shows "padding_dead grid'"
proof (rule padding_deadI)
  fix y x
  note d = FillRandom_dims [OF ok fr]
  assume "y < m_height grid'" "x < m_width grid'" "padding grid' y x"
  then have yx: "y < m_height grid" "x < m_width grid" and "\<not> logical grid y x"
    using d by (simp_all add: padding_def logical_def)
  then show "at grid' y x = Some \<lparr>previous = False, current = False\<rparr>"
    using FillRandom_at [OF ok yx fr] by simp
qed

lemma clear_simps [simp]:
  "m_width (clear grid) = m_width grid"
  "m_height (clear grid) = m_height grid"
  "length (m_data (clear grid)) = length (m_data grid)"
  "grid_ok (clear grid) = grid_ok grid"
  by (simp_all add: clear_def fill_def grid_ok_def)

lemma clear_padding_dead:
  assumes ok: "grid_ok grid"
  shows "padding_dead (clear grid)"
proof (rule padding_deadI)
  fix y x
  assume "y < m_height (clear grid)" "x < m_width (clear grid)"
  then have "y * m_width grid + x < length (m_data grid)"
    using ok index_less [of y "m_height grid" x "m_width grid"] by (simp add: grid_ok_def)
  then show "at (clear grid) y x = Some \<lparr>previous = False, current = False\<rparr>"
    by (simp add: at_def clear_def fill_def)
qed

lemma edit_padding_dead:
  assumes ok: "grid_ok grid" and pd: "padding_dead grid"
    and w: "m_width grid = fieldWidth + 2" and h: "m_height grid = fieldHeight + 2"
  shows "\<exists>grid'. edit grid pos mouseL mouseR = Some grid' \<and> grid_ok grid' \<and> padding_dead grid'
    \<and> m_width grid' = m_width grid \<and> m_height grid' = m_height grid"
proof (cases "mouseOver pos \<and> (mouseL \<or> mouseR)")
  case False
  then have "edit grid pos mouseL mouseR = Some grid"
    by (auto simp: edit_def)
  then show ?thesis using ok pd by simp
next
  case True
  obtain px py where pos: "pos = Point px py" by (cases pos)
  have px: "0 \<le> px" "px \<le> 598" and py: "0 \<le> py" "py \<le> 598"
    using True by (simp_all add: pos mouseOver_def)
  let ?tx = "nat (px div 10 + 1)" and ?ty = "nat (py div 10 + 1)"
  let ?i = "?ty * m_width grid + ?tx"
  let ?v = "mouseL"
  note t = edit_target_canvas [OF px py]
  have lg: "logical grid ?ty ?tx"
    using t(2-5) w h by (simp add: logical_def fieldWidth_def fieldHeight_def)
  then have yx: "?ty < m_height grid" "?tx < m_width grid"
    by (simp_all add: logical_def)
  note pi = point_index_inside [OF ok yx]
  define grid' where "grid' = grid\<lparr>m_data := (m_data grid)[?i := (m_data grid ! ?i)\<lparr>current := ?v\<rparr>]\<rparr>"
  have put: "put_current_at grid (edit_target pos) v
      = Some (grid\<lparr>m_data := (m_data grid)[?i := (m_data grid ! ?i)\<lparr>current := v\<rparr>]\<rparr>)" for v
    using pi(2) unfolding put_current_at_def Let_def pos t(1) pi(1) by simp
  have e: "edit grid pos mouseL mouseR = Some grid'"
    using True put [of True] put [of False]
    by (cases mouseL) (simp_all add: edit_def grid'_def Let_def)
  have d: "m_width grid' = m_width grid" "m_height grid' = m_height grid"
    "length (m_data grid') = length (m_data grid)"
    by (simp_all add: grid'_def)
  have ok': "grid_ok grid'"
    using ok d by (simp add: grid_ok_def)
  have "padding_dead grid'"
  proof (rule padding_deadI)
    fix y x
    assume y: "y < m_height grid'" and x: "x < m_width grid'" and p: "padding grid' y x"
    then have p': "padding grid y x" and yx': "y < m_height grid" "x < m_width grid"
      using d padding_same_dims [of grid' grid] by simp_all
    have "y * m_width grid + x \<noteq> ?i"
    proof
      assume "y * m_width grid + x = ?i"
      then have "y = ?ty \<and> x = ?tx"
        using index_inj [of x "m_width grid" ?tx y ?ty] yx'(2) yx(2) by simp
      then show False
        using p' lg by (simp add: padding_def)
    qed
    then have "at grid' y x = at grid y x"
      by (simp add: at_def grid'_def Let_def)
    then show "at grid' y x = Some \<lparr>previous = False, current = False\<rparr>"
      using padding_deadD [OF pd yx' p'] by simp
  qed
  then show ?thesis
    using e ok' d by simp
qed

lemma frame_invariant:
  assumes "frame_ok s"
  shows "\<exists>s'. frame inp s = Some s' \<and> frame_ok s'"
proof -
  obtain grid rng where s: "s = (grid, rng)" by (cases s)
  have inv: "grid_ok grid" "padding_dead grid"
    "m_width grid = fieldWidth + 2" "m_height grid = fieldHeight + 2"
    using assms by (simp_all add: frame_ok_def s)
  obtain s1 where s1: "(if randomButton inp then FillRandom s else Some s) = Some s1"
    and i1: "frame_ok s1"
  proof (cases "randomButton inp")
    case True
    obtain grid' rng' where fr: "FillRandom (grid, rng) = Some (grid', rng')"
      using FillRandom_closed [OF inv(1), of rng]
      by (cases "filled ((m_height grid - 2) * (m_width grid - 2)) grid rng") simp
    have "frame_ok (grid', rng')"
      using FillRandom_dims [OF inv(1) fr] FillRandom_padding_dead [OF inv(1) fr] inv
      by (simp add: frame_ok_def)
    then show ?thesis using that True fr s by simp
  next
    case False
    then show ?thesis using that assms by simp
  qed
  define s2 where "s2 = (if clearButton inp then (clear (fst s1), snd s1) else s1)"
  have i2: "frame_ok s2"
    using i1 clear_padding_dead [of "fst s1"] by (simp add: s2_def frame_ok_def)
  obtain grid3 where g3: "(if updateDue inp then Update (fst s2) else Some (fst s2)) = Some grid3"
    and i3: "frame_ok (grid3, snd s2)"
  proof (cases "updateDue inp")
    case True
    have ok2: "grid_ok (fst s2)" and pd2: "padding_dead (fst s2)"
      using i2 by (simp_all add: frame_ok_def)
    obtain grid' where up: "Update (fst s2) = Some grid'"
      using Update_total [OF ok2] by blast
    have "frame_ok (grid', snd s2)"
      using Update_dims [OF up ok2] Update_padding_dead [OF ok2 pd2 up] i2
      by (simp add: frame_ok_def)
    then show ?thesis using that True up by simp
  next
    case False
    then show ?thesis using that i2 by (simp add: frame_ok_def)
  qed
  obtain grid4 where g4: "edit grid3 (cursorPos inp) (mouseLpressed inp) (mouseRpressed inp) = Some grid4"
    and i4: "frame_ok (grid4, snd s2)"
    using edit_padding_dead [of grid3 "cursorPos inp" "mouseLpressed inp" "mouseRpressed inp"] i3
    by (auto simp: frame_ok_def)
  have "frame inp s = do {
      grid3 \<leftarrow> (if updateDue inp then Update (fst s2) else Some (fst s2));
      grid4 \<leftarrow> edit grid3 (cursorPos inp) (mouseLpressed inp) (mouseRpressed inp);
      Some (grid4, snd s2)
    }"
    unfolding frame_def s1 by (simp add: s2_def Let_def)
  also have "\<dots> = Some (grid4, snd s2)"
    unfolding g3 by (simp add: g4)
  finally show ?thesis using i4 by simp
qed

lemma run_invariant:
  assumes "frame_ok s"
  shows "\<exists>s'. run inputs s = Some s' \<and> frame_ok s'"
  using assms unfolding run_def
proof (induction inputs arbitrary: s)
  case Nil
  then show ?case by simp
next
  case (Cons inp inputs)
  obtain s1 where "frame inp s = Some s1" "frame_ok s1"
    using frame_invariant [OF Cons.prems] by blast
  then show ?case
    using Cons.IH [of s1] by simp
qed

lemma main_grid_padding_dead: "padding_dead main_grid"
proof (rule padding_deadI)
  fix y x
  assume "y < m_height main_grid" "x < m_width main_grid"
  then have "y * m_width main_grid + x < length (m_data main_grid)"
    using main_grid_ok index_less [of y "m_height main_grid" x "m_width main_grid"]
    by (simp add: grid_ok_def)
  then show "at main_grid y x = Some \<lparr>previous = False, current = False\<rparr>"
    unfolding at_def Let_def main_grid_def by (simp add: new_grid_nth)
qed

section \<open>The claims\<close>

subsection \<open>C1: the rule of one step\<close>

text \<open>
  C1. For every well-formed grid and every logical cell \<open>(y, x)\<close>, \<open>Update\<close> returns a
  grid; in it the \<open>previous\<close> bit of the cell is the value the cell had before the call
  (the snapshot), the neighbour count over the \<open>previous\<close> bits is the neighbour count
  of the grid before the call, and the \<open>current\<close> bit is set exactly when the cell was
  dead with three live neighbours or alive with two or three.
\<close>

theorem Update_rule:
  assumes ok: "grid_ok grid" and lg: "logical grid y x"
  shows "\<exists>grid' c'. Update grid = Some grid' \<and> at grid' y x = Some c'
    \<and> previous c' = alive grid y x
    \<and> neighborCount (was_alive grid') y x = neighborCount (alive grid) y x
    \<and> current c' =
        ((\<not> alive grid y x \<and> neighborCount (alive grid) y x = 3)
         \<or> (alive grid y x \<and> (neighborCount (alive grid) y x = 2 \<or> neighborCount (alive grid) y x = 3)))"
proof -
  obtain grid' where up: "Update grid = Some grid'"
    using Update_total [OF ok] by blast
  have yx: "y < m_height grid" "x < m_width grid" "y + 1 < m_height grid" "x + 1 < m_width grid"
    using lg by (simp_all add: logical_def)
  have "neighborCount (was_alive grid') y x = neighborCount (alive grid) y x"
  proof (rule neighborCount_cong)
    fix y' x'
    assume "y' \<le> y + 1" "x' \<le> x + 1"
    then have "y' < m_height grid" "x' < m_width grid" using yx by simp_all
    then show "was_alive grid' y' x' = alive grid y' x'"
      using ok up by (simp add: was_alive_Update)
  qed
  then show ?thesis
    using Update_at [OF ok yx(1,2) up] lg up by (simp add: spec_new_current_def)
qed

text \<open>
  The middle cell of the row above a horizontal row of three live cells is dead and
  has three live neighbours: it is born.
\<close>

theorem Update_rule_witness:
  "grid_ok blinker_row \<and> logical blinker_row 1 2 \<and> \<not> alive blinker_row 1 2
   \<and> neighborCount (alive blinker_row) 1 2 = 3
   \<and> (\<exists>grid' c'. Update blinker_row = Some grid' \<and> at grid' 1 2 = Some c' \<and> current c')"
proof -
  have ok: "grid_ok blinker_row"
    by (simp add: blinker_row_def grid_of_ok)
  have lg: "logical blinker_row 1 2"
    by (simp add: blinker_row_def logical_def)
  have a: "\<not> alive blinker_row 1 2"
    by (simp add: blinker_row_def alive_grid_of)
  have n: "neighborCount (alive blinker_row) 1 2 = 3"
    by (simp add: blinker_row_def neighborCount_def alive_grid_of)
  show ?thesis
    using Update_rule [OF ok lg] ok lg a n by auto
qed

subsection \<open>C2: the border stays dead\<close>

text \<open>
  C2. On a well-formed grid whose border cells have both bits clear, any number \<open>n\<close>
  of calls of \<open>Update\<close> returns a grid of the same dimensions whose border cells have
  both bits clear. The same holds for the other operations of the program: from such a
  grid of 62 x 62 cells, any finite sequence of passes of the loop of \<open>Main\<close> (each with
  or without the random fill, the clearing, the step and a mouse edit, in the order of
  the source) returns such a grid.
\<close>

theorem padding_stays_dead:
  assumes ok: "grid_ok grid" and pd: "padding_dead grid"
  shows "(\<exists>grid'. steps n grid = Some grid' \<and> grid_ok grid' \<and> padding_dead grid'
          \<and> m_width grid' = m_width grid \<and> m_height grid' = m_height grid)
    \<and> (m_width grid = fieldWidth + 2 \<and> m_height grid = fieldHeight + 2
        \<longrightarrow> (\<exists>grid' rng'. run inputs (grid, rng) = Some (grid', rng')
              \<and> grid_ok grid' \<and> padding_dead grid'
              \<and> m_width grid' = m_width grid \<and> m_height grid' = m_height grid))"
proof (intro conjI impI)
  show "\<exists>grid'. steps n grid = Some grid' \<and> grid_ok grid' \<and> padding_dead grid'
          \<and> m_width grid' = m_width grid \<and> m_height grid' = m_height grid"
    using ok pd by (rule steps_invariant)
next
  assume d: "m_width grid = fieldWidth + 2 \<and> m_height grid = fieldHeight + 2"
  then have "frame_ok (grid, rng)"
    using ok pd by (simp add: frame_ok_def)
  then obtain s' where r: "run inputs (grid, rng) = Some s'" and i: "frame_ok s'"
    using run_invariant by blast
  obtain grid' rng' where s': "s' = (grid', rng')" by (cases s')
  show "\<exists>grid' rng'. run inputs (grid, rng) = Some (grid', rng')
              \<and> grid_ok grid' \<and> padding_dead grid'
              \<and> m_width grid' = m_width grid \<and> m_height grid' = m_height grid"
    using r i d unfolding s' by (simp add: frame_ok_def)
qed

text \<open>The grid \<open>Main\<close> starts with, after three steps and after two passes of the loop.\<close>

theorem padding_stays_dead_witness:
  "grid_ok main_grid \<and> padding_dead main_grid
   \<and> m_width main_grid = fieldWidth + 2 \<and> m_height main_grid = fieldHeight + 2
   \<and> (\<exists>grid'. steps 3 main_grid = Some grid' \<and> padding_dead grid')
   \<and> (\<exists>grid' rng'. run two_frames (main_grid, sconst True) = Some (grid', rng')
        \<and> padding_dead grid')"
proof -
  have d: "m_width main_grid = fieldWidth + 2 \<and> m_height main_grid = fieldHeight + 2"
    by (simp add: main_grid_def)
  have "\<exists>grid'. steps 3 main_grid = Some grid' \<and> padding_dead grid'"
    using padding_stays_dead [OF main_grid_ok main_grid_padding_dead, of 3] by blast
  moreover have "\<exists>grid' rng'. run two_frames (main_grid, sconst True) = Some (grid', rng')
        \<and> padding_dead grid'"
    using padding_stays_dead [OF main_grid_ok main_grid_padding_dead, of 0 two_frames "sconst True"] d
    by blast
  ultimately show ?thesis
    using main_grid_ok main_grid_padding_dead d by simp
qed

subsection \<open>C3: FillRandom\<close>

text \<open>
  C3, as stated, says that \<open>FillRandom\<close> never writes a border cell. It does: it starts
  with \<open>grid.fill({ 0,0 })\<close>, which clears every cell. On the 3 x 3 grid with every cell
  alive, the border cell \<open>(0, 0)\<close> is alive before the call and dead after it.
\<close>

theorem FillRandom_writes_padding:
  "padding all_alive 0 0
   \<and> at all_alive 0 0 = Some \<lparr>previous = False, current = True\<rparr>
   \<and> FillRandom (all_alive, sconst True) = Some (center_alive, sconst True)
   \<and> at center_alive 0 0 = Some \<lparr>previous = False, current = False\<rparr>"
  by (simp add: all_alive_def center_alive_def grid_of_def FillRandom_def fill_def Range_incl_def
      fill_cell_def RandomBool_def put_def padding_def logical_def at_def upt_0_9)

text \<open>
  C3, amended. On a well-formed grid \<open>FillRandom\<close> returns a grid of the same
  dimensions in which every logical cell has \<open>previous\<close> clear and \<open>current\<close> equal to
  a draw of the generator, and every border cell has both bits clear. The generator
  has advanced by one draw for each logical cell, and two different logical cells
  receive two different draws (of the stream \<open>rng\<close>, the draws number
  \<open>draw_index grid y x\<close>).
\<close>

theorem FillRandom_cells:
  assumes ok: "grid_ok grid"
  shows "\<exists>grid'. FillRandom (grid, rng)
      = Some (grid', sdrop ((m_height grid - 2) * (m_width grid - 2)) rng)
    \<and> m_width grid' = m_width grid \<and> m_height grid' = m_height grid \<and> grid_ok grid'
    \<and> (\<forall>y\<in>{..<m_height grid}. \<forall>x\<in>{..<m_width grid}.
          at grid' y x =
            Some (if logical grid y x
                  then \<lparr>previous = False, current = rng !! draw_index grid y x\<rparr>
                  else \<lparr>previous = False, current = False\<rparr>))
    \<and> (\<forall>y\<in>{..<m_height grid}. \<forall>x\<in>{..<m_width grid}.
        \<forall>y'\<in>{..<m_height grid}. \<forall>x'\<in>{..<m_width grid}.
          logical grid y x \<and> logical grid y' x' \<and> draw_index grid y x = draw_index grid y' x'
          \<longrightarrow> y = y' \<and> x = x')"
proof -
  obtain grid' rng' where fr: "FillRandom (grid, rng) = Some (grid', rng')"
    using FillRandom_closed [OF ok, of rng] by (cases "filled ((m_height grid - 2) * (m_width grid - 2)) grid rng") simp
  note d = FillRandom_dims [OF ok fr]
  have cells: "at grid' y x =
      Some (if logical grid y x
            then \<lparr>previous = False, current = rng !! draw_index grid y x\<rparr>
            else \<lparr>previous = False, current = False\<rparr>)"
    if "y < m_height grid" "x < m_width grid" for y x
    using FillRandom_at [OF ok that fr] .
  have inj: "y = y' \<and> x = x'"
    if "logical grid y x" "logical grid y' x'" "draw_index grid y x = draw_index grid y' x'"
    for y x y' x'
    using that by (rule draw_index_inj)
  have "FillRandom (grid, rng) = Some (grid', sdrop ((m_height grid - 2) * (m_width grid - 2)) rng)"
    using fr d(4) by simp
  then show ?thesis
    using d(1-3) cells inj by (intro exI [of _ grid'] conjI ballI impI) blast+
qed

theorem FillRandom_cells_witness:
  "grid_ok blinker_row
   \<and> (\<exists>grid'. FillRandom (blinker_row, [True, False] @- sconst True)
          = Some (grid', sdrop ((m_height blinker_row - 2) * (m_width blinker_row - 2))
                    ([True, False] @- sconst True))
        \<and> at grid' 1 1 = Some \<lparr>previous = False, current = True\<rparr>
        \<and> at grid' 1 2 = Some \<lparr>previous = False, current = False\<rparr>
        \<and> at grid' 2 2 = Some \<lparr>previous = False, current = True\<rparr>
        \<and> at grid' 0 2 = Some \<lparr>previous = False, current = False\<rparr>)"
proof -
  let ?rng = "[True, False] @- sconst True"
  have ok: "grid_ok blinker_row"
    by (simp add: blinker_row_def grid_of_ok)
  have d: "m_height blinker_row = 5" "m_width blinker_row = 5"
    by (simp_all add: blinker_row_def)
  obtain grid' where fr: "FillRandom (blinker_row, ?rng)
      = Some (grid', sdrop ((m_height blinker_row - 2) * (m_width blinker_row - 2)) ?rng)"
    and cells: "\<forall>y\<in>{..<m_height blinker_row}. \<forall>x\<in>{..<m_width blinker_row}.
          at grid' y x =
            Some (if logical blinker_row y x
                  then \<lparr>previous = False, current = ?rng !! draw_index blinker_row y x\<rparr>
                  else \<lparr>previous = False, current = False\<rparr>)"
    using FillRandom_cells [OF ok, of ?rng] by (elim exE conjE)
  have "at grid' 1 1 = Some \<lparr>previous = False, current = True\<rparr>"
    "at grid' 1 2 = Some \<lparr>previous = False, current = False\<rparr>"
    "at grid' 2 2 = Some \<lparr>previous = False, current = True\<rparr>"
    "at grid' 0 2 = Some \<lparr>previous = False, current = False\<rparr>"
    using cells unfolding d by (simp_all add: logical_def draw_index_def d eval_nat_numeral)
  then show ?thesis
    using ok fr by (intro conjI exI [of _ grid'])
qed

subsection \<open>C4: the blinker\<close>

text \<open>
  C4, as stated, places the row of three live cells at any logical cells. In the first
  row of the field it fails: the cell above the middle of the row is a border cell,
  which \<open>Update\<close> never writes. On the 5 x 5 grid whose only live cells are the logical
  cells \<open>(1, 1)\<close>, \<open>(1, 2)\<close>, \<open>(1, 3)\<close> (row, column), the cell \<open>(0, 2)\<close> of the column is
  dead after one step, and after two steps the three cells of the row are dead.
\<close>

theorem blinker_top_row_dies:
  "grid_ok blinker_top
   \<and> logical blinker_top 1 1 \<and> logical blinker_top 1 2 \<and> logical blinker_top 1 3
   \<and> alive_after 0 blinker_top 1 1 = Some True
   \<and> alive_after 0 blinker_top 1 2 = Some True
   \<and> alive_after 0 blinker_top 1 3 = Some True
   \<and> alive_after 0 blinker_top 0 2 = Some False
   \<and> alive_after 0 blinker_top 2 2 = Some False
   \<and> alive_after 1 blinker_top 0 2 = Some False
   \<and> alive_after 1 blinker_top 1 2 = Some True
   \<and> alive_after 1 blinker_top 2 2 = Some True
   \<and> alive_after 2 blinker_top 1 1 = Some False
   \<and> alive_after 2 blinker_top 1 2 = Some False
   \<and> alive_after 2 blinker_top 1 3 = Some False"
proof -
  have "grid_ok blinker_top"
    by (simp add: blinker_top_def grid_of_ok)
  moreover have "logical blinker_top 1 1" "logical blinker_top 1 2" "logical blinker_top 1 3"
    by (simp_all add: blinker_top_def logical_def)
  moreover have "alive_after 0 blinker_top 1 1 = Some True"
    "alive_after 0 blinker_top 1 2 = Some True"
    "alive_after 0 blinker_top 1 3 = Some True"
    "alive_after 0 blinker_top 0 2 = Some False"
    "alive_after 0 blinker_top 2 2 = Some False"
    by code_simp+
  moreover have "alive_after 1 blinker_top 0 2 = Some False"
    "alive_after 1 blinker_top 1 2 = Some True"
    "alive_after 1 blinker_top 2 2 = Some True"
    by code_simp+
  moreover have "alive_after 2 blinker_top 1 1 = Some False"
    "alive_after 2 blinker_top 1 2 = Some False"
    "alive_after 2 blinker_top 1 3 = Some False"
    by code_simp+
  ultimately show ?thesis
    by (intro conjI)
qed

text \<open>
  C4, amended. On a well-formed grid whose live cells are exactly the three cells
  \<open>(r, c)\<close>, \<open>(r, c + 1)\<close>, \<open>(r, c + 2)\<close> of one row, where the row and the column
  \<open>(r - 1, c + 1)\<close>, \<open>(r, c + 1)\<close>, \<open>(r + 1, c + 1)\<close> lie in the field (the row is not
  the first or the last row of the field), one \<open>Update\<close> gives the grid whose live cells
  are exactly that column, and a second \<open>Update\<close> gives the grid whose live cells are
  exactly the row again. Rows and columns are those of the array: the logical cell
  \<open>(x, y)\<close> of the specification is \<open>(y + 1, x + 1)\<close> here.
\<close>

theorem blinker_period_two:
  assumes ok: "grid_ok grid"
    and inside: "logical grid r c" "logical grid r (c + 2)"
      "logical grid (r - 1) (c + 1)" "logical grid (r + 1) (c + 1)"
    and row: "\<forall>y\<in>{..<m_height grid}. \<forall>x\<in>{..<m_width grid}.
                alive grid y x = (y = r \<and> c \<le> x \<and> x \<le> c + 2)"
  shows "\<exists>grid1 grid2. Update grid = Some grid1 \<and> Update grid1 = Some grid2
    \<and> (\<forall>y\<in>{..<m_height grid}. \<forall>x\<in>{..<m_width grid}.
          alive grid1 y x = (x = c + 1 \<and> r - 1 \<le> y \<and> y \<le> r + 1))
    \<and> (\<forall>y\<in>{..<m_height grid}. \<forall>x\<in>{..<m_width grid}.
          alive grid2 y x = (y = r \<and> c \<le> x \<and> x \<le> c + 2))"
proof -
  have r: "2 \<le> r" "r + 2 < m_height grid" and c: "1 \<le> c" "c + 3 < m_width grid"
    using inside by (simp_all add: logical_def)
  let ?row = "\<lambda>y x. y = r \<and> c \<le> x \<and> x \<le> c + 2"
  let ?col = "\<lambda>y x. x = c + 1 \<and> r - 1 \<le> y \<and> y \<le> r + 1"
  obtain grid1 where up1: "Update grid = Some grid1"
    using Update_total [OF ok] by blast
  note d1 = Update_dims [OF up1 ok]
  obtain grid2 where up2: "Update grid1 = Some grid2"
    using Update_total [OF d1(4)] by blast
  have a1: "alive grid1 y x = ?col y x" if "y < m_height grid" "x < m_width grid" for y x
  proof (rule Update_pattern [OF ok _ _ _ up1 that, where p = ?row])
    show "alive grid y x = ?row y x" if "y < m_height grid" "x < m_width grid" for y x
      using row that by simp
    show "spec_new_current (?row y x) (neighborCount ?row y x) = ?col y x"
      if "logical grid y x" for y x
      using that r c by (intro row_to_col) (simp_all add: logical_def)
    show "?row y x = ?col y x"
      if "y < m_height grid" "x < m_width grid" "\<not> logical grid y x" for y x
      using that r c by (auto simp: logical_def)
  qed
  have a2: "alive grid2 y x = ?row y x" if "y < m_height grid" "x < m_width grid" for y x
  proof (rule Update_pattern [OF d1(4) _ _ _ up2, where p = ?col])
    show "alive grid1 y x = ?col y x" if "y < m_height grid1" "x < m_width grid1" for y x
      using a1 that d1 by simp
    show "spec_new_current (?col y x) (neighborCount ?col y x) = ?row y x"
      if "logical grid1 y x" for y x
      using that r c by (intro col_to_row) (simp_all add: logical_def)
    show "?col y x = ?row y x"
      if "y < m_height grid1" "x < m_width grid1" "\<not> logical grid1 y x" for y x
      using that r c d1 by (auto simp: logical_def)
    show "y < m_height grid1" "x < m_width grid1"
      using that d1 by simp_all
  qed
  show ?thesis
    using up1 up2 a1 a2 by simp
qed

theorem blinker_period_two_witness:
  "grid_ok blinker_row
   \<and> (\<exists>grid1 grid2. Update blinker_row = Some grid1 \<and> Update grid1 = Some grid2
        \<and> \<not> alive grid1 2 1 \<and> alive grid1 1 2 \<and> alive grid1 2 2 \<and> alive grid1 3 2 \<and> \<not> alive grid1 2 3
        \<and> alive grid2 2 1 \<and> \<not> alive grid2 1 2 \<and> alive grid2 2 2 \<and> \<not> alive grid2 3 2 \<and> alive grid2 2 3)"
proof -
  have ok: "grid_ok blinker_row"
    by (simp add: blinker_row_def grid_of_ok)
  have d: "m_height blinker_row = 5" "m_width blinker_row = 5"
    by (simp_all add: blinker_row_def)
  have row: "\<forall>y\<in>{..<m_height blinker_row}. \<forall>x\<in>{..<m_width blinker_row}.
      alive blinker_row y x = (y = 2 \<and> 1 \<le> x \<and> x \<le> 1 + 2)"
    unfolding d by (auto simp: blinker_row_def alive_grid_of)
  have pos: "logical blinker_row 2 1" "logical blinker_row 2 (1 + 2)"
    "logical blinker_row (2 - 1) (1 + 1)" "logical blinker_row (2 + 1) (1 + 1)"
    unfolding logical_def d by simp_all
  obtain grid1 grid2 where
    up: "Update blinker_row = Some grid1" "Update grid1 = Some grid2"
    and a1: "\<forall>y\<in>{..<5}. \<forall>x\<in>{..<5}. alive grid1 y x = (x = 1 + 1 \<and> 2 - 1 \<le> y \<and> y \<le> 2 + 1)"
    and a2: "\<forall>y\<in>{..<5}. \<forall>x\<in>{..<5}. alive grid2 y x = (y = 2 \<and> 1 \<le> x \<and> x \<le> 1 + 2)"
    using blinker_period_two [OF ok pos row] unfolding d by (elim exE conjE)
  have "\<not> alive grid1 2 1" "alive grid1 1 2" "alive grid1 2 2" "alive grid1 3 2" "\<not> alive grid1 2 3"
    using a1 by simp_all
  moreover have "alive grid2 2 1" "\<not> alive grid2 1 2" "alive grid2 2 2" "\<not> alive grid2 3 2" "alive grid2 2 3"
    using a2 by simp_all
  ultimately show ?thesis
    using ok up by (intro conjI exI [of _ grid1] exI [of _ grid2])
qed

subsection \<open>C5: the image of a grid\<close>

text \<open>
  C5. For a well-formed grid and an image of the size of its field, \<open>CopyToImage\<close>
  returns an image of the same size in which every pixel \<open>(y, x)\<close> has the colour of a
  live cell when the cell \<open>(y + 1, x + 1)\<close> of the grid (the logical cell at the pixel) is
  alive and the colour of a dead cell otherwise; the two colours differ. The image has
  no other element, and the grid is an input only. In particular, when the logical
  cell \<open>(3, 4)\<close> (column 3, row 4) is the only live one, the pixel of column 3 and row 4
  is the only one in the colour of a live cell.
\<close>

theorem CopyToImage_projection:
  assumes ok: "grid_ok grid" and iok: "image_ok img"
    and w: "m_width grid = im_width img + 2" and h: "m_height grid = im_height img + 2"
  shows "\<exists>img'. CopyToImage grid img = Some img'
    \<and> im_width img' = im_width img \<and> im_height img' = im_height img \<and> image_ok img'
    \<and> colorLivingCell \<noteq> colorDeadCell
    \<and> (\<forall>y\<in>{..<im_height img}. \<forall>x\<in>{..<im_width img}.
          pixel img' y x = Some (if alive grid (y + 1) (x + 1) then colorLivingCell else colorDeadCell))
    \<and> ((\<forall>y\<in>{..<im_height img}. \<forall>x\<in>{..<im_width img}. alive grid (y + 1) (x + 1) = (x = 3 \<and> y = 4))
        \<longrightarrow> (\<forall>y\<in>{..<im_height img}. \<forall>x\<in>{..<im_width img}.
              pixel img' y x = Some (if x = 3 \<and> y = 4 then colorLivingCell else colorDeadCell)))"
proof -
  have rd: "reads_inside grid img"
    using ok w h by (intro reads_inside_smaller) simp_all
  obtain img' where cp: "CopyToImage grid img = Some img'"
    using CopyToImage_closed [OF iok rd] by simp
  have px: "pixel img' y x = Some (if alive grid (y + 1) (x + 1) then colorLivingCell else colorDeadCell)"
    if "y < im_height img" "x < im_width img" for y x
    using CopyToImage_pixel [OF iok rd that cp] .
  show ?thesis
    using cp CopyToImage_dims [OF iok rd cp] colors_differ px by simp
qed

theorem CopyToImage_projection_witness:
  "grid_ok only_3_4 \<and> image_ok main_image
   \<and> m_width only_3_4 = im_width main_image + 2 \<and> m_height only_3_4 = im_height main_image + 2
   \<and> (\<exists>img'. CopyToImage only_3_4 main_image = Some img'
        \<and> pixel img' 4 3 = Some colorLivingCell \<and> pixel img' 3 4 = Some colorDeadCell
        \<and> pixel img' 0 0 = Some colorDeadCell \<and> pixel img' 59 59 = Some colorDeadCell)"
proof -
  have d: "m_width only_3_4 = im_width main_image + 2" "m_height only_3_4 = im_height main_image + 2"
    by (simp_all add: only_3_4_def main_image_def new_image_def)
  have i: "im_width main_image = 60" "im_height main_image = 60"
    by (simp_all add: main_image_def new_image_def fieldWidth_def fieldHeight_def)
  have a: "\<forall>y\<in>{..<im_height main_image}. \<forall>x\<in>{..<im_width main_image}.
      alive only_3_4 (y + 1) (x + 1) = (x = 3 \<and> y = 4)"
    unfolding i by (auto simp: only_3_4_def fieldWidth_def fieldHeight_def alive_grid_of)
  obtain img' where cp: "CopyToImage only_3_4 main_image = Some img'"
    and px: "\<forall>y\<in>{..<60}. \<forall>x\<in>{..<60}.
      pixel img' y x = Some (if x = 3 \<and> y = 4 then colorLivingCell else colorDeadCell)"
    using CopyToImage_projection [OF only_3_4_ok main_image_ok d] a unfolding i
    by (elim exE conjE) simp
  have "pixel img' 4 3 = Some colorLivingCell" "pixel img' 3 4 = Some colorDeadCell"
    "pixel img' 0 0 = Some colorDeadCell" "pixel img' 59 59 = Some colorDeadCell"
    using px by simp_all
  then show ?thesis
    using only_3_4_ok main_image_ok d cp by (intro conjI exI [of _ img'])
qed

subsection \<open>C6: Update is a function of the current bits\<close>

text \<open>
  C6. \<open>Update\<close> takes the grid and nothing else (no generator, unlike \<open>FillRandom\<close>), and
  its result is determined by the dimensions and the \<open>current\<close> bits of the grid: two
  grids that agree on them, whatever their \<open>previous\<close> bits, and so two identical
  grids, give the same result.
\<close>

theorem Update_deterministic:
  fixes grid1 grid2 :: "Cell Grid"
  assumes "m_width grid1 = m_width grid2" "m_height grid1 = m_height grid2"
    and "map current (m_data grid1) = map current (m_data grid2)"
  shows "Update grid1 = Update grid2"
  using snapshot_eq [OF assms] by (simp add: Update_def)

text \<open>
  The row of three live cells, once with all \<open>previous\<close> bits clear and once with all of
  them set: two different grids, one result.
\<close>

theorem Update_deterministic_witness:
  "m_width blinker_row = m_width blinker_row_seen
   \<and> m_height blinker_row = m_height blinker_row_seen
   \<and> map current (m_data blinker_row) = map current (m_data blinker_row_seen)
   \<and> blinker_row \<noteq> blinker_row_seen
   \<and> Update blinker_row = Update blinker_row_seen"
proof -
  have d: "m_width blinker_row = m_width blinker_row_seen"
    "m_height blinker_row = m_height blinker_row_seen"
    by (simp_all add: blinker_row_seen_def)
  have c: "map current (m_data blinker_row) = map current (m_data blinker_row_seen)"
    by (simp add: blinker_row_seen_def)
  have "m_data blinker_row ! 0 \<noteq> m_data blinker_row_seen ! 0"
    by (simp add: blinker_row_seen_def blinker_row_def grid_of_def)
  then have "blinker_row \<noteq> blinker_row_seen"
    by auto
  then show ?thesis
    using Update_deterministic [OF d c] d c by simp
qed

subsection \<open>C7: clear\<close>

text \<open>
  C7. \<open>clear\<close> leaves the dimensions and makes every element of the array, border
  cells included, the cell with both bits clear; clearing twice is clearing once.
\<close>

theorem clear_all_dead:
  "clear grid = grid\<lparr>m_data := replicate (length (m_data grid)) \<lparr>previous = False, current = False\<rparr>\<rparr>
   \<and> clear (clear grid) = clear grid"
  by (simp add: clear_def fill_def map_replicate_const)

subsection \<open>C8: an image of another size\<close>

text \<open>
  C8, as stated, asks for a failure when the image has not the size of the field.
  \<open>CopyToImage\<close> makes no such check: it runs over the dimensions of the image. Here the
  field is 3 x 3 and the image 2 x 1; the call returns, and the image has changed.
\<close>

theorem CopyToImage_no_dimension_check:
  "im_width small_image \<noteq> m_width blinker_row - 2
   \<and> im_height small_image \<noteq> m_height blinker_row - 2
   \<and> CopyToImage blinker_row small_image = Some (new_image 2 1 colorDeadCell)
   \<and> new_image 2 1 colorDeadCell \<noteq> small_image"
  by (simp add: small_image_def new_image_def blinker_row_def grid_of_def CopyToImage_def step_def
      copy_pixel_def at_def image_put_def colors_differ [symmetric] numeral_2_eq_2)

text \<open>
  C8, amended. For a well-formed grid and an image that is no larger than the field in
  either dimension, of the same size or not, \<open>CopyToImage\<close> returns an image of the same
  size as the one it was given, in which every pixel \<open>(y, x)\<close> has the colour of the
  logical cell at the pixel.
\<close>

theorem CopyToImage_smaller_image:
  assumes ok: "grid_ok grid" and iok: "image_ok img"
    and w: "im_width img + 2 \<le> m_width grid" and h: "im_height img + 2 \<le> m_height grid"
  shows "\<exists>img'. CopyToImage grid img = Some img'
    \<and> im_width img' = im_width img \<and> im_height img' = im_height img \<and> image_ok img'
    \<and> (\<forall>y\<in>{..<im_height img}. \<forall>x\<in>{..<im_width img}.
          pixel img' y x = Some (if alive grid (y + 1) (x + 1) then colorLivingCell else colorDeadCell))"
proof -
  have rd: "reads_inside grid img"
    using ok w h by (rule reads_inside_smaller)
  obtain img' where cp: "CopyToImage grid img = Some img'"
    using CopyToImage_closed [OF iok rd] by simp
  have px: "pixel img' y x = Some (if alive grid (y + 1) (x + 1) then colorLivingCell else colorDeadCell)"
    if "y < im_height img" "x < im_width img" for y x
    using CopyToImage_pixel [OF iok rd that cp] .
  show ?thesis
    using cp CopyToImage_dims [OF iok rd cp] px by simp
qed

theorem CopyToImage_smaller_image_witness:
  "grid_ok blinker_row \<and> image_ok small_image
   \<and> im_width small_image + 2 \<le> m_width blinker_row
   \<and> im_height small_image + 2 \<le> m_height blinker_row
   \<and> im_height small_image + 2 \<noteq> m_height blinker_row
   \<and> (\<exists>img'. CopyToImage blinker_row small_image = Some img'
        \<and> pixel img' 0 0 = Some colorDeadCell \<and> pixel img' 0 1 = Some colorDeadCell)"
proof -
  have ok: "grid_ok blinker_row"
    by (simp add: blinker_row_def grid_of_ok)
  have iok: "image_ok small_image"
    by (simp add: small_image_def new_image_def image_ok_def)
  have d: "im_width small_image = 2" "im_height small_image = 1"
    "m_width blinker_row = 5" "m_height blinker_row = 5"
    by (simp_all add: small_image_def new_image_def blinker_row_def)
  have le: "im_width small_image + 2 \<le> m_width blinker_row"
    "im_height small_image + 2 \<le> m_height blinker_row"
    unfolding d by simp_all
  obtain img' where cp: "CopyToImage blinker_row small_image = Some img'"
    and px: "\<forall>y\<in>{..<1}. \<forall>x\<in>{..<2}.
      pixel img' y x = Some (if alive blinker_row (y + 1) (x + 1) then colorLivingCell else colorDeadCell)"
    using CopyToImage_smaller_image [OF ok iok le] unfolding d by (elim exE conjE)
  have "pixel img' 0 0 = Some colorDeadCell" "pixel img' 0 1 = Some colorDeadCell"
    using px by (simp_all add: blinker_row_def alive_grid_of)
  then show ?thesis
    using ok iok le cp d by (intro conjI exI [of _ img']) simp_all
qed

subsection \<open>C9: Update returns\<close>

text \<open>
  C9. \<open>Update\<close> is defined by recursion over two finite ranges, and on every well-formed
  grid it returns a grid (it never leaves the array): the first loop visits the
  \<open>width * height\<close> cells, the second \<open>height - 2\<close> rows of \<open>width - 2\<close> cells. The result
  is a well-formed grid of the same dimensions.
\<close>

theorem Update_terminates:
  assumes "grid_ok grid"
  shows "\<exists>grid'. Update grid = Some grid' \<and> grid_ok grid'
    \<and> m_width grid' = m_width grid \<and> m_height grid' = m_height grid
    \<and> length (m_data (snapshot grid)) = m_width grid * m_height grid
    \<and> length (Range_incl 1 (size_sub (m_height grid) 2)) = m_height grid - 2
    \<and> length (Range_incl 1 (size_sub (m_width grid) 2)) = m_width grid - 2"
proof -
  obtain grid' where up: "Update grid = Some grid'"
    using Update_total [OF assms] by blast
  have "2 \<le> m_height grid" "2 \<le> m_width grid" "length (m_data grid) = m_width grid * m_height grid"
    using assms by (simp_all add: grid_ok_def)
  then show ?thesis
    using up Update_dims [OF up assms] by simp
qed

theorem Update_terminates_witness:
  "grid_ok blinker_row \<and> (\<exists>grid'. Update blinker_row = Some grid' \<and> grid_ok grid'
     \<and> m_width grid' = 5 \<and> m_height grid' = 5)"
proof -
  have ok: "grid_ok blinker_row"
    by (simp add: blinker_row_def grid_of_ok)
  show ?thesis
    using Update_terminates [OF ok] ok by (auto simp: blinker_row_def)
qed

subsection \<open>C10: the mouse edit stays in the field\<close>

text \<open>
  C10. For a well-formed grid of 62 x 62 cells and a cursor at \<open>(px, py)\<close> with
  \<open>0 \<le> px \<le> 598\<close> and \<open>0 \<le> py \<le> 598\<close> (where \<open>mouseOver\<close> holds), the target of the edit
  is \<open>(px div 10 + 1, py div 10 + 1)\<close>, both coordinates are between 1 and 60, the
  target is a logical cell, its index \<open>ty * 62 + tx\<close> is inside the array, and the edit
  returns the grid in which the element at that index has its \<open>current\<close> bit set to the
  value written and nothing else is changed: the \<open>previous\<close> bit of the cell and all
  other cells are as before.
\<close>

theorem mouse_edit_inside:
  assumes ok: "grid_ok grid"
    and w: "m_width grid = fieldWidth + 2" and h: "m_height grid = fieldHeight + 2"
    and px: "0 \<le> px" "px \<le> 598" and py: "0 \<le> py" "py \<le> 598"
  shows "\<exists>tx ty. edit_target (Point px py) = Point (int tx) (int ty)
    \<and> int tx = px div 10 + 1 \<and> int ty = py div 10 + 1
    \<and> 1 \<le> tx \<and> tx \<le> 60 \<and> 1 \<le> ty \<and> ty \<le> 60
    \<and> logical grid ty tx
    \<and> mouseOver (Point px py)
    \<and> point_index grid (edit_target (Point px py)) = ty * m_width grid + tx
    \<and> ty * m_width grid + tx < length (m_data grid)
    \<and> put_current_at grid (edit_target (Point px py)) v =
        Some (grid\<lparr>m_data := (m_data grid)[ty * m_width grid + tx :=
          (m_data grid ! (ty * m_width grid + tx))\<lparr>current := v\<rparr>]\<rparr>)
    \<and> edit grid (Point px py) True mouseR = put_current_at grid (edit_target (Point px py)) True
    \<and> edit grid (Point px py) False True = put_current_at grid (edit_target (Point px py)) False
    \<and> edit grid (Point px py) False False = Some grid"
proof -
  let ?tx = "nat (px div 10 + 1)" and ?ty = "nat (py div 10 + 1)"
  note t = edit_target_canvas [OF px py]
  have lg: "logical grid ?ty ?tx"
    using t(2-5) w h by (simp add: logical_def fieldWidth_def fieldHeight_def)
  then have yx: "?ty < m_height grid" "?tx < m_width grid"
    by (simp_all add: logical_def)
  note pi = point_index_inside [OF ok yx]
  have mo: "mouseOver (Point px py)"
    using px py by (simp add: mouseOver_def)
  have put: "put_current_at grid (edit_target (Point px py)) v =
        Some (grid\<lparr>m_data := (m_data grid)[?ty * m_width grid + ?tx :=
          (m_data grid ! (?ty * m_width grid + ?tx))\<lparr>current := v\<rparr>]\<rparr>)"
    using pi(2) unfolding put_current_at_def Let_def t(1) pi(1) by simp
  have tx: "int ?tx = px div 10 + 1" and ty: "int ?ty = py div 10 + 1"
    using px py by simp_all
  have e1: "edit grid (Point px py) True mouseR = put_current_at grid (edit_target (Point px py)) True"
    and e2: "edit grid (Point px py) False True = put_current_at grid (edit_target (Point px py)) False"
    and e3: "edit grid (Point px py) False False = Some grid"
    using mo by (simp_all add: edit_def)
  have pi': "point_index grid (edit_target (Point px py)) = ?ty * m_width grid + ?tx"
    using pi(1) by (simp only: t(1))
  show ?thesis
    using t(1) tx ty t(2-5) lg mo pi' pi(2) put e1 e2 e3
    by (intro exI [of _ ?tx] exI [of _ ?ty] conjI)
qed

text \<open>The cursor at the right end of the first row of pixels: the target is \<open>(60, 1)\<close>.\<close>

theorem mouse_edit_inside_witness:
  "grid_ok main_grid \<and> m_width main_grid = fieldWidth + 2 \<and> m_height main_grid = fieldHeight + 2
   \<and> edit_target (Point 598 0) = Point 60 1
   \<and> logical main_grid 1 60
   \<and> point_index main_grid (Point 60 1) = 122
   \<and> put_current_at main_grid (Point 60 1) True =
        Some (main_grid\<lparr>m_data := (m_data main_grid)[122 := \<lparr>previous = False, current = True\<rparr>]\<rparr>)"
proof -
  have d: "m_width main_grid = fieldWidth + 2" "m_height main_grid = fieldHeight + 2"
    by (simp_all add: main_grid_def)
  have e: "edit_target (Point 598 0) = Point 60 1"
    by (simp add: edit_target_def signed_divide_int_def)
  have n: "m_data main_grid ! 122 = \<lparr>previous = False, current = False\<rparr>"
    unfolding main_grid_def by (rule new_grid_nth) (simp add: fieldWidth_def fieldHeight_def)
  obtain tx ty where "Point 60 1 = Point (int tx) (int ty)"
    and lg: "logical main_grid ty tx"
    and pi: "point_index main_grid (Point 60 1) = ty * m_width main_grid + tx"
    and put: "put_current_at main_grid (Point 60 1) True =
        Some (main_grid\<lparr>m_data := (m_data main_grid)[ty * m_width main_grid + tx :=
          (m_data main_grid ! (ty * m_width main_grid + tx))\<lparr>current := True\<rparr>]\<rparr>)"
    using mouse_edit_inside [OF main_grid_ok d, of 598 0 True] unfolding e by auto
  then have t: "tx = 60" "ty = 1" by simp_all
  have i: "ty * m_width main_grid + tx = 122"
    by (simp add: t d fieldWidth_def)
  have "logical main_grid 1 60"
    using lg unfolding t .
  moreover have "point_index main_grid (Point 60 1) = 122"
    using pi unfolding i .
  moreover have "put_current_at main_grid (Point 60 1) True =
        Some (main_grid\<lparr>m_data := (m_data main_grid)[122 := \<lparr>previous = False, current = True\<rparr>]\<rparr>)"
    using put unfolding i n by simp
  ultimately show ?thesis
    using main_grid_ok d e by (intro conjI)
qed

end
